theory Spec2Isabelle
  imports Main
begin

unbundle bit_operations_syntax

section \<open>Values, records and indexes\<close>

text \<open>
  A \<open>QVariant\<close> is either invalid (the default-constructed value, which the source uses as
  "no value") or holds a typed payload. Only the string type is inspected by the table model;
  the payload of every other type is carried through unchanged.
\<close>

datatype qvariant =
    Invalid
  | VBool bool
  | VInt int
  | VString string
  | VDate int
  | VOther nat nat

fun isValidVariant :: "qvariant \<Rightarrow> bool" where
  "isValidVariant Invalid = False"
| "isValidVariant _ = True"

text \<open>
  \<open>QString::trimmed\<close> removes the characters for which \<open>QChar::isSpace\<close> holds from both
  ends. Characters are modelled as code points below 256, where the white space is
  \<open>'\t'\<close>, \<open>'\n'\<close>, \<open>'\v'\<close>, \<open>'\f'\<close>, \<open>'\r'\<close>, the space, NEL (0x85) and the no-break
  space (0xA0).
\<close>

definition isSpace :: "char \<Rightarrow> bool" where
  "isSpace c = (let n = (of_char c :: nat)
                in n = 32 \<or> (9 \<le> n \<and> n \<le> 13) \<or> n = 133 \<or> n = 160)"

definition trimmed :: "string \<Rightarrow> string" where
  "trimmed s = rev (dropWhile isSpace (rev (dropWhile isSpace s)))"

text \<open>
  Modelled from the spec: the class \<open>QDbfRecord\<close> is used by the table model but its code is
  not part of the sources at hand. The spec describes a record as an "ordered sequence of typed
  field values plus a deletion flag and a field-name lookup by column ordinal". A field is a
  name with a value; the record also remembers its physical position in the table. Lookups
  outside the field range yield the default (no value, empty name) and writes outside the
  range are ignored.
\<close>

record dbf_record =
  rec_index :: int
  rec_deleted :: bool
  rec_fields :: "(string \<times> qvariant) list"

text \<open>Modelled from the spec: \<open>QDbfRecord::count\<close>, the number of fields.\<close>

definition rec_count :: "dbf_record \<Rightarrow> int" where
  "rec_count r = int (length (rec_fields r))"

text \<open>Modelled from the spec: \<open>QDbfRecord::contains\<close>, whether a column ordinal names a
  field of the record.\<close>

definition rec_contains :: "dbf_record \<Rightarrow> int \<Rightarrow> bool" where
  "rec_contains r i = (0 \<le> i \<and> i < rec_count r)"

text \<open>Modelled from the spec: \<open>QDbfRecord::value\<close>, the value of a field, no value
  outside the record.\<close>

definition rec_value :: "dbf_record \<Rightarrow> int \<Rightarrow> qvariant" where
  "rec_value r i = (if rec_contains r i then snd (rec_fields r ! nat i) else Invalid)"

text \<open>Modelled from the spec: \<open>QDbfRecord::setValue\<close>, which replaces the value of a field
  and leaves the record alone for a column outside it.\<close>

definition rec_setValue :: "dbf_record \<Rightarrow> int \<Rightarrow> qvariant \<Rightarrow> dbf_record" where
  "rec_setValue r i v =
     (if rec_contains r i
      then r\<lparr>rec_fields := (rec_fields r)[nat i := (fst (rec_fields r ! nat i), v)]\<rparr>
      else r)"

text \<open>Modelled from the spec: \<open>QDbfRecord::fieldName\<close>, the "field-name lookup by column
  ordinal".\<close>

definition rec_fieldName :: "dbf_record \<Rightarrow> int \<Rightarrow> string" where
  "rec_fieldName r i = (if rec_contains r i then fst (rec_fields r ! nat i) else [])"

text \<open>
  A \<open>QModelIndex\<close> carries a row, a column and a pointer to its model; it is valid when
  both coordinates are non-negative and the model pointer is set. The default-constructed
  index (the root) is \<open>(-1, -1, null)\<close>.
\<close>

record qmodel_index =
  idx_row :: int
  idx_column :: int
  idx_model :: bool

definition isValid :: "qmodel_index \<Rightarrow> bool" where
  "isValid index = (0 \<le> idx_row index \<and> 0 \<le> idx_column index \<and> idx_model index)"

definition QModelIndex :: qmodel_index where
  "QModelIndex = \<lparr>idx_row = -1, idx_column = -1, idx_model = False\<rparr>"

datatype orientation = Horizontal | Vertical

datatype item_flag = ItemIsSelectable | ItemIsEditable | ItemIsEnabled

definition DisplayRole :: int where
  "DisplayRole = 0"

definition EditRole :: int where
  "EditRole = 2"

definition DBF_PREFETCH :: int where
  "DBF_PREFETCH = 255"

section \<open>The record store\<close>

text \<open>
  Modelled from the spec: the class \<open>QDbfTable\<close> (the record store) is a collaborator whose
  code is not part of the sources at hand. The spec lists its interface: open with a mode,
  \<open>isOpen\<close>, the total record count, \<open>seek(position)\<close> ("false if invalid/unseekable", for
  example when "the store was closed or the bookmark is invalid"), \<open>advance\<close> ("false at end
  of traversal"), the current record with its deleted flag, the current physical position and
  \<open>persistRecord(Record) \<rightarrow> bool\<close>. The store is a sequence of physical records with a
  cursor; \<open>-1\<close> is the position before the first record. Whether an update of a writable
  store succeeds is decided by the store (\<open>tbl_accepts\<close>); a store that is closed or opened
  read-only rejects every update.
\<close>

datatype open_mode = ReadOnly | ReadWrite

record dbf_table =
  tbl_openable :: bool
  tbl_isOpen :: bool
  tbl_openMode :: open_mode
  tbl_fields :: "string list"
  tbl_recs :: "dbf_record list"
  tbl_at :: int
  tbl_accepts :: "dbf_record \<Rightarrow> bool"

text \<open>Modelled from the spec: \<open>QDbfTable::open\<close>. Opening succeeds when the file can be
  opened and puts the cursor before the first record.\<close>

definition tbl_open :: "dbf_table \<Rightarrow> open_mode \<Rightarrow> dbf_table" where
  "tbl_open t mode = t\<lparr>tbl_isOpen := tbl_openable t, tbl_openMode := mode, tbl_at := -1\<rparr>"

text \<open>Modelled from the spec: \<open>QDbfTable::size\<close>, the total record count, deleted records
  included.\<close>

definition tbl_size :: "dbf_table \<Rightarrow> int" where
  "tbl_size t = int (length (tbl_recs t))"

text \<open>Modelled from the spec: \<open>QDbfTable::seek\<close>, "false if invalid/unseekable": the store
  must be open and the position that of a record or the one before the first.\<close>

definition tbl_seek :: "dbf_table \<Rightarrow> int \<Rightarrow> bool \<times> dbf_table" where
  "tbl_seek t i =
     (if tbl_isOpen t \<and> -1 \<le> i \<and> i < tbl_size t then (True, t\<lparr>tbl_at := i\<rparr>)
      else (False, t))"

text \<open>Modelled from the spec: \<open>QDbfTable::next\<close>, which moves the cursor one record on and
  is "false at end of traversal".\<close>

definition tbl_next :: "dbf_table \<Rightarrow> bool \<times> dbf_table" where
  "tbl_next t =
     (if tbl_isOpen t \<and> -1 \<le> tbl_at t \<and> tbl_at t + 1 < tbl_size t
      then (True, t\<lparr>tbl_at := tbl_at t + 1\<rparr>)
      else (False, t))"

text \<open>Modelled from the spec: the record of the schema alone, every field without a value;
  it is what \<open>QDbfTable::record\<close> gives while the cursor is on no record.\<close>

definition tbl_blank :: "dbf_table \<Rightarrow> dbf_record" where
  "tbl_blank t =
     \<lparr>rec_index = -1, rec_deleted = False, rec_fields = map (\<lambda>n. (n, Invalid)) (tbl_fields t)\<rparr>"

text \<open>Modelled from the spec: \<open>QDbfTable::record\<close>, the record under the cursor with its
  deleted flag and its position (\<open>QDbfTable::at\<close> is the field \<open>tbl_at\<close>).\<close>

definition tbl_record :: "dbf_table \<Rightarrow> dbf_record" where
  "tbl_record t =
     (if 0 \<le> tbl_at t \<and> tbl_at t < tbl_size t
      then (tbl_recs t ! nat (tbl_at t))\<lparr>rec_index := tbl_at t\<rparr>
      else tbl_blank t)"

text \<open>Modelled from the spec: \<open>QDbfTable::updateRecordInTable\<close>, "persistRecord(Record)
  \<rightarrow> bool". An accepted record replaces the physical record at its position; a rejected
  one leaves the store as it was.\<close>

definition updateRecordInTable :: "dbf_table \<Rightarrow> dbf_record \<Rightarrow> bool \<times> dbf_table" where
  "updateRecordInTable t r =
     (if tbl_isOpen t \<and> tbl_openMode t = ReadWrite \<and> tbl_accepts t r
         \<and> 0 \<le> rec_index r \<and> rec_index r < tbl_size t
      then (True, t\<lparr>tbl_recs := (tbl_recs t)[nat (rec_index r) := r]\<rparr>)
      else (False, t))"

section \<open>The table model\<close>

text \<open>
  The members of \<open>QDbfTableModelPrivate\<close>. The model owns its table, so the table's state is
  part of the model's state. \<open>m_headers\<close> is a vector of hashes from role to value. The
  counts and positions are C++ \<open>int\<close>s bounded by the number of records of a file; they
  are modelled as unbounded integers.
\<close>

record table_model =
  m_dbfTable :: dbf_table
  m_record :: dbf_record
  m_records :: "dbf_record list"
  m_headers :: "(int \<rightharpoonup> qvariant) list"
  m_deletedRecordsCount :: int
  m_lastRecordIndex :: int

text \<open>The signals sent to the views, in the order of emission.\<close>

datatype event =
    DataChanged qmodel_index qmodel_index
  | HeaderDataChanged orientation int int
  | BeginInsertRows qmodel_index int int
  | EndInsertRows

text \<open>
  \<open>QVector::at\<close> requires an index inside the vector; outside it the program asserts or runs
  into undefined behaviour. The model makes that outcome a value.
\<close>

datatype error = IndexOutOfRange

text \<open>\<open>QVector::value(i)\<close> with the default for a position outside the vector,
  \<open>QHash::value(key)\<close> with the invalid variant for a missing key, and
  \<open>QVector::resize\<close>.\<close>

definition vec_value :: "'a list \<Rightarrow> int \<Rightarrow> 'a \<Rightarrow> 'a" where
  "vec_value xs i d = (if 0 \<le> i \<and> i < int (length xs) then xs ! nat i else d)"

definition hash_value :: "(int \<rightharpoonup> qvariant) \<Rightarrow> int \<Rightarrow> qvariant" where
  "hash_value h k = (case h k of None \<Rightarrow> Invalid | Some v \<Rightarrow> v)"

definition vec_resize :: "'a list \<Rightarrow> int \<Rightarrow> 'a \<Rightarrow> 'a list" where
  "vec_resize xs n d =
     (if n \<le> int (length xs) then take (nat n) xs
      else xs @ replicate (nat n - length xs) d)"

text \<open>The constructor of the private class: it opens the table in the requested mode and
  takes the schema record; nothing has been fetched yet.\<close>

definition QDbfTableModelPrivate :: "dbf_table \<Rightarrow> bool \<Rightarrow> table_model" where
  "QDbfTableModelPrivate file readOnly =
     (let openMode = (if readOnly then ReadOnly else ReadWrite);
          t = tbl_open file openMode
      in \<lparr>m_dbfTable = t, m_record = tbl_record t, m_records = [], m_headers = [],
          m_deletedRecordsCount = 0, m_lastRecordIndex = -1\<rparr>)"

text \<open>\<open>rowCount\<close>, \<open>columnCount\<close> and \<open>flags\<close>.\<close>

definition rowCount :: "table_model \<Rightarrow> int" where
  "rowCount m = int (length (m_records m))"

definition columnCount :: "table_model \<Rightarrow> int" where
  "columnCount m = rec_count (m_record m)"

definition flags :: "table_model \<Rightarrow> qmodel_index \<Rightarrow> item_flag set" where
  "flags m index =
     (if \<not> isValid index then {ItemIsEnabled}
      else (case tbl_openMode (m_dbfTable m) of
              ReadWrite \<Rightarrow> {ItemIsSelectable, ItemIsEnabled, ItemIsEditable}
            | _ \<Rightarrow> {ItemIsSelectable, ItemIsEnabled}))"

text \<open>
  \<open>setData\<close>. The result is the returned flag, the state after the call and the signals
  emitted. \<open>m_records.at(index.row())\<close> is reached with no comparison of the row against
  the size of the vector, so a row beyond it is the error \<open>IndexOutOfRange\<close>.
\<close>

definition setData ::
  "table_model \<Rightarrow> qmodel_index \<Rightarrow> qvariant \<Rightarrow> int \<Rightarrow> error + (bool \<times> table_model \<times> event list)"
where
  "setData m index val role =
     (if \<not> tbl_isOpen (m_dbfTable m) then Inr (False, m, [])
      else if isValid index \<and> role = EditRole then
        (if \<not> idx_row index < rowCount m then Inl IndexOutOfRange
         else
           let r = nat (idx_row index);
               oldValue = rec_value (m_records m ! r) (idx_column index);
               m1 = m\<lparr>m_records :=
                        (m_records m)[r := rec_setValue (m_records m ! r) (idx_column index) val]\<rparr>;
               (ok, t) = updateRecordInTable (m_dbfTable m1) (m_records m1 ! r)
           in if \<not> ok
              then Inr (False,
                        m1\<lparr>m_dbfTable := t,
                           m_records :=
                             (m_records m1)[r := rec_setValue (m_records m1 ! r)
                                                   (idx_column index) oldValue]\<rparr>,
                        [])
              else Inr (True, m1\<lparr>m_dbfTable := t\<rparr>, [DataChanged index index]))
      else Inr (False, m, []))"

text \<open>
  \<open>data\<close>. Only a value of type string has \<open>value.type() == QVariant::String\<close>, so the
  edit role trims exactly the strings.
\<close>

definition data :: "table_model \<Rightarrow> qmodel_index \<Rightarrow> int \<Rightarrow> qvariant" where
  "data m index role =
     (if \<not> isValid index then Invalid
      else if idx_row index \<ge> rowCount m \<or> idx_column index \<ge> columnCount m then Invalid
      else if role AND NOT (DisplayRole OR EditRole) \<noteq> 0 then Invalid
      else
        let val = rec_value (m_records m ! nat (idx_row index)) (idx_column index)
        in (case val of
              VString s \<Rightarrow> if role = EditRole then VString (trimmed s) else val
            | _ \<Rightarrow> val))"

text \<open>
  The section number of a header is a C++ \<open>int\<close>, and \<open>section + 1\<close> is computed in
  32 bits. \<open>int32\<close> is the value of a 32-bit two's complement result: the sum itself while
  it is at most 2147483647, and wrapped around beyond.
\<close>

definition int32 :: "int \<Rightarrow> int" where
  "int32 x = (x + 2147483648) mod 4294967296 - 2147483648"

text \<open>\<open>setHeaderData\<close> and \<open>headerData\<close>.\<close>

definition setHeaderData ::
  "table_model \<Rightarrow> int \<Rightarrow> orientation \<Rightarrow> qvariant \<Rightarrow> int \<Rightarrow> bool \<times> table_model \<times> event list"
where
  "setHeaderData m section orientation val role =
     (if orientation \<noteq> Horizontal \<or> section < 0 \<or> columnCount m \<le> section
      then (False, m, [])
      else
        let hs = (if int (length (m_headers m)) \<le> section
                  then vec_resize (m_headers m) (max (section + 1) 16) Map.empty
                  else m_headers m);
            hs' = hs[nat section := (hs ! nat section)(role \<mapsto> val)]
        in (True, m\<lparr>m_headers := hs'\<rparr>, [HeaderDataChanged orientation section section]))"

definition headerData :: "table_model \<Rightarrow> int \<Rightarrow> orientation \<Rightarrow> int \<Rightarrow> qvariant" where
  "headerData m section orientation role =
     (let fallback = (if role = DisplayRole then VInt (int32 (section + 1)) else Invalid)
      in if orientation = Horizontal then
           let val0 = hash_value (vec_value (m_headers m) section Map.empty) role;
               val = (if role = DisplayRole \<and> \<not> isValidVariant val0
                      then hash_value (vec_value (m_headers m) section Map.empty) EditRole
                      else val0)
           in if isValidVariant val then val
              else if role = DisplayRole \<and> rec_count (m_record m) > section
              then VString (rec_fieldName (m_record m) section)
              else fallback
         else fallback)"

text \<open>\<open>canFetchMore\<close>.\<close>

definition canFetchMore :: "table_model \<Rightarrow> qmodel_index \<Rightarrow> bool" where
  "canFetchMore m index =
     (if \<not> isValid index \<and> tbl_isOpen (m_dbfTable m) \<and>
         int (length (m_records m)) + m_deletedRecordsCount m < tbl_size (m_dbfTable m)
      then True else False)"

text \<open>
  The \<open>while (m_dbfTable->next())\<close> loop of \<open>fetchMore\<close>. The arguments are the state, the
  batch size and the number of live records appended so far; \<open>continue\<close> and the loop's normal
  end are the recursive calls, \<open>break\<close> and a failed \<open>next()\<close> return.
\<close>

function fetchLoop :: "table_model \<Rightarrow> int \<Rightarrow> int \<Rightarrow> table_model" where
  "fetchLoop m fetchSize fetchedRecordsCount =
     (case tbl_next (m_dbfTable m) of
        (False, t) \<Rightarrow> m\<lparr>m_dbfTable := t\<rparr>
      | (True, t) \<Rightarrow>
          let record = tbl_record t in
          if rec_deleted record
          then fetchLoop (m\<lparr>m_dbfTable := t,
                            m_deletedRecordsCount := m_deletedRecordsCount m + 1\<rparr>)
                         fetchSize fetchedRecordsCount
          else
            let m' = m\<lparr>m_dbfTable := t, m_records := m_records m @ [record],
                       m_lastRecordIndex := tbl_at t\<rparr>
            in if fetchedRecordsCount + 1 \<ge> fetchSize then m'
               else fetchLoop m' fetchSize (fetchedRecordsCount + 1))"
  by pat_completeness auto
termination
  by (relation "measure (\<lambda>(m, fs, fc). nat (tbl_size (m_dbfTable m) - tbl_at (m_dbfTable m)))")
     (auto simp: tbl_next_def tbl_size_def split: if_splits)

text \<open>
  \<open>fetchMore\<close>. The batch size and the arguments of \<open>beginInsertRows\<close> are computed
  after the seek and before the loop; \<open>endInsertRows\<close> follows the loop.
\<close>

definition fetchMore :: "table_model \<Rightarrow> qmodel_index \<Rightarrow> table_model \<times> event list" where
  "fetchMore m index =
     (if isValid index then (m, [])
      else case tbl_seek (m_dbfTable m) (m_lastRecordIndex m) of
        (False, t) \<Rightarrow> (m\<lparr>m_dbfTable := t\<rparr>, [])
      | (True, t) \<Rightarrow>
          let m1 = m\<lparr>m_dbfTable := t\<rparr>;
              fetchSize = min (tbl_size (m_dbfTable m1) - int (length (m_records m1))
                               - m_deletedRecordsCount m1) DBF_PREFETCH;
              begin = BeginInsertRows index (int (length (m_records m1)) + 1)
                                      (int (length (m_records m1)) + fetchSize)
          in (fetchLoop m1 fetchSize 0, [begin, EndInsertRows]))"

text \<open>The constructor of \<open>QDbfTableModel\<close>: the private part, then a first fetch if
  there is something to fetch.\<close>

definition QDbfTableModel :: "dbf_table \<Rightarrow> bool \<Rightarrow> table_model \<times> event list" where
  "QDbfTableModel file readOnly =
     (let d = QDbfTableModelPrivate file readOnly
      in if canFetchMore d QModelIndex then fetchMore d QModelIndex else (d, []))"

text \<open>
  The public methods of \<open>QDbfTableModel\<close> delegate to the private class. One call takes the
  state and yields the returned value, the state after the call and the signals emitted.
  The \<open>const\<close> methods cannot assign to a member, so they hand the state back as it
  was.
\<close>

datatype operation =
    OpRowCount qmodel_index
  | OpColumnCount qmodel_index
  | OpFlags qmodel_index
  | OpData qmodel_index int
  | OpHeaderData int orientation int
  | OpCanFetchMore qmodel_index
  | OpSetData qmodel_index qvariant int
  | OpSetHeaderData int orientation qvariant int
  | OpFetchMore qmodel_index

datatype reply =
    RInt int
  | RFlags "item_flag set"
  | RVariant qvariant
  | RBool bool
  | RVoid

fun call :: "table_model \<Rightarrow> operation \<Rightarrow> error + (reply \<times> table_model \<times> event list)" where
  "call m (OpRowCount index) = Inr (RInt (rowCount m), m, [])"
| "call m (OpColumnCount index) = Inr (RInt (columnCount m), m, [])"
| "call m (OpFlags index) = Inr (RFlags (flags m index), m, [])"
| "call m (OpData index role) = Inr (RVariant (data m index role), m, [])"
| "call m (OpHeaderData section orientation role) =
     Inr (RVariant (headerData m section orientation role), m, [])"
| "call m (OpCanFetchMore index) = Inr (RBool (canFetchMore m index), m, [])"
| "call m (OpSetData index val role) =
     (case setData m index val role of
        Inl e \<Rightarrow> Inl e
      | Inr (ok, m', evs) \<Rightarrow> Inr (RBool ok, m', evs))"
| "call m (OpSetHeaderData section orientation val role) =
     (case setHeaderData m section orientation val role of
        (ok, m', evs) \<Rightarrow> Inr (RBool ok, m', evs))"
| "call m (OpFetchMore index) =
     (case fetchMore m index of (m', evs) \<Rightarrow> Inr (RVoid, m', evs))"

text \<open>A sequence of calls, stopping at the first one that fails.\<close>

fun run :: "table_model \<Rightarrow> operation list \<Rightarrow> error + table_model" where
  "run m [] = Inr m"
| "run m (op # ops) =
     (case call m op of
        Inl e \<Rightarrow> Inl e
      | Inr (r, m', evs) \<Rightarrow> run m' ops)"

text \<open>
  The protocol of the views, which the constructor follows as well: \<open>fetchMore\<close> is called
  only after \<open>canFetchMore\<close> has answered true for the same index.
\<close>

fun fetchAllowed :: "table_model \<Rightarrow> operation \<Rightarrow> bool" where
  "fetchAllowed m (OpFetchMore index) = canFetchMore m index"
| "fetchAllowed m _ = True"

fun guarded :: "table_model \<Rightarrow> operation list \<Rightarrow> bool" where
  "guarded m [] = True"
| "guarded m (op # ops) =
     (fetchAllowed m op \<and>
      (case call m op of
         Inl e \<Rightarrow> True
       | Inr (r, m', evs) \<Rightarrow> guarded m' ops))"

section \<open>Notions used in the statements\<close>

text \<open>The cell addressed by an index exists in the row cache and in the schema.\<close>

definition inRange :: "table_model \<Rightarrow> qmodel_index \<Rightarrow> bool" where
  "inRange m index =
     (isValid index \<and> idx_row index < rowCount m \<and> idx_column index < columnCount m)"

text \<open>The value stored in the row cache at an index.\<close>

definition stored :: "table_model \<Rightarrow> qmodel_index \<Rightarrow> qvariant" where
  "stored m index = rec_value (m_records m ! nat (idx_row index)) (idx_column index)"

text \<open>
  What the header overlay holds for a column and a role, read the way the source reads it:
  \<open>m_headers.value(section).value(role)\<close>, which is invalid when the column is beyond the
  overlay or the role has no entry.
\<close>

definition overlayValue :: "table_model \<Rightarrow> int \<Rightarrow> int \<Rightarrow> qvariant" where
  "overlayValue m section role = hash_value (vec_value (m_headers m) section Map.empty) role"

text \<open>
  The request to persist the row with one cell overwritten: the row as it is sent to the
  store, the store's answer and the store afterwards.
\<close>

definition overwritten :: "table_model \<Rightarrow> qmodel_index \<Rightarrow> qvariant \<Rightarrow> dbf_record" where
  "overwritten m index val =
     rec_setValue (m_records m ! nat (idx_row index)) (idx_column index) val"

definition storeAccepts :: "table_model \<Rightarrow> qmodel_index \<Rightarrow> qvariant \<Rightarrow> bool" where
  "storeAccepts m index val =
     fst (updateRecordInTable (m_dbfTable m) (overwritten m index val))"

definition storeAfter :: "table_model \<Rightarrow> qmodel_index \<Rightarrow> qvariant \<Rightarrow> dbf_table" where
  "storeAfter m index val =
     snd (updateRecordInTable (m_dbfTable m) (overwritten m index val))"

text \<open>Every physical record of the store has been passed by the cursor.\<close>

definition fullyFetched :: "table_model \<Rightarrow> bool" where
  "fullyFetched m = (tbl_at (m_dbfTable m) + 1 = tbl_size (m_dbfTable m))"

text \<open>
  The cursor invariant behind the count invariant: the cursor stands on the last record
  accounted for, and as long as records remain the bookmark equals the cursor.
\<close>

definition cursorInv :: "table_model \<Rightarrow> bool" where
  "cursorInv m =
     (- 1 \<le> tbl_at (m_dbfTable m) \<and>
      tbl_at (m_dbfTable m) < tbl_size (m_dbfTable m) \<and>
      rowCount m + m_deletedRecordsCount m = tbl_at (m_dbfTable m) + 1 \<and>
      (if tbl_at (m_dbfTable m) + 1 < tbl_size (m_dbfTable m)
       then m_lastRecordIndex m = tbl_at (m_dbfTable m) else True))"

text \<open>Every physical record after a position is deleted.\<close>

definition trailing :: "dbf_table \<Rightarrow> int \<Rightarrow> bool" where
  "trailing t p = list_all rec_deleted (drop (nat (p + 1)) (tbl_recs t))"

text \<open>
  The invariant of every run, gated or not. The bookmark is \<open>-1\<close> or the position of a
  record; every row of the cache is live and was read at or before the bookmark; and either
  the cursor stands on the bookmark with everything up to it accounted for, or the counts
  have reached the size of the store and every record after the bookmark is deleted.
\<close>

definition fetchInv :: "table_model \<Rightarrow> bool" where
  "fetchInv m =
     (- 1 \<le> m_lastRecordIndex m \<and>
      m_lastRecordIndex m < tbl_size (m_dbfTable m) \<and>
      list_all (\<lambda>r. \<not> rec_deleted r \<and> 0 \<le> rec_index r \<and> rec_index r \<le> m_lastRecordIndex m)
        (m_records m) \<and>
      (tbl_at (m_dbfTable m) = m_lastRecordIndex m \<and>
       rowCount m + m_deletedRecordsCount m = m_lastRecordIndex m + 1
       \<or>
       tbl_size (m_dbfTable m) \<le> rowCount m + m_deletedRecordsCount m \<and>
       trailing (m_dbfTable m) (m_lastRecordIndex m)))"

section \<open>Example data\<close>

definition ex_live :: dbf_record where
  "ex_live = \<lparr>rec_index = 0, rec_deleted = False, rec_fields = [(''NAME'', VString '' Ann '')]\<rparr>"

definition ex_dead :: dbf_record where
  "ex_dead = \<lparr>rec_index = 1, rec_deleted = True, rec_fields = [(''NAME'', VString ''Bob'')]\<rparr>"

text \<open>A file with one live record followed by one deleted record. The store refuses to
  persist a record whose first field is null.\<close>

definition ex_file :: dbf_table where
  "ex_file =
     \<lparr>tbl_openable = True, tbl_isOpen = False, tbl_openMode = ReadOnly,
      tbl_fields = [''NAME''], tbl_recs = [ex_live, ex_dead], tbl_at = -1,
      tbl_accepts = (\<lambda>r. isValidVariant (rec_value r 0))\<rparr>"

text \<open>The same file with the live record only.\<close>

definition ex_file1 :: dbf_table where
  "ex_file1 = ex_file\<lparr>tbl_recs := [ex_live]\<rparr>"

text \<open>The state of the model right after its construction over \<open>ex_file\<close>, opened for
  writing: both records have been traversed.\<close>

definition ex_model :: table_model where
  "ex_model =
     \<lparr>m_dbfTable = ex_file\<lparr>tbl_isOpen := True, tbl_openMode := ReadWrite, tbl_at := 1\<rparr>,
      m_record = \<lparr>rec_index = -1, rec_deleted = False, rec_fields = [(''NAME'', Invalid)]\<rparr>,
      m_records = [ex_live],
      m_headers = [],
      m_deletedRecordsCount = 1,
      m_lastRecordIndex = 0\<rparr>"

definition ex_cell :: qmodel_index where
  "ex_cell = \<lparr>idx_row = 0, idx_column = 0, idx_model = True\<rparr>"

text \<open>The state after one more \<open>fetchMore\<close> on \<open>ex_model\<close>: the deleted record has been
  counted a second time.\<close>

definition ex_recount :: table_model where
  "ex_recount = ex_model\<lparr>m_deletedRecordsCount := 2\<rparr>"

text \<open>A file with 256 live records, one more than a batch holds.\<close>

definition ex_big :: dbf_table where
  "ex_big = ex_file\<lparr>tbl_recs := replicate 256 ex_live\<rparr>"

text \<open>A model whose file could not be opened.\<close>

definition ex_closed :: table_model where
  "ex_closed = QDbfTableModelPrivate (ex_file\<lparr>tbl_openable := False\<rparr>) False"

text \<open>The private part of a model over \<open>ex_file1\<close>, before the constructor's first fetch.\<close>

definition ex_fresh :: table_model where
  "ex_fresh = QDbfTableModelPrivate ex_file1 False"

text \<open>Valid indexes below the last row and right of the last column of \<open>ex_model\<close>.\<close>

definition ex_far_row :: qmodel_index where
  "ex_far_row = \<lparr>idx_row = 5, idx_column = 0, idx_model = True\<rparr>"

definition ex_far_column :: qmodel_index where
  "ex_far_column = \<lparr>idx_row = 0, idx_column = 7, idx_model = True\<rparr>"

text \<open>The state after a title has been written for column 0 under the edit role.\<close>

definition ex_titled :: table_model where
  "ex_titled = fst (snd (setHeaderData ex_model 0 Horizontal (VString ''Full Name'') EditRole))"

section \<open>The fetch loop\<close>

declare fetchLoop.simps [simp del]

lemmas ex_defs = ex_file_def ex_file1_def ex_live_def ex_dead_def ex_model_def ex_cell_def
  ex_titled_def ex_recount_def ex_closed_def ex_fresh_def ex_far_row_def ex_far_column_def
lemmas tbl_defs = tbl_open_def tbl_size_def tbl_seek_def tbl_next_def tbl_record_def tbl_blank_def
lemmas rec_defs = rec_count_def rec_contains_def rec_value_def rec_setValue_def rec_fieldName_def

lemma tbl_next_True:
  "tbl_next t = (True, t') \<Longrightarrow>
     t' = t\<lparr>tbl_at := tbl_at t + 1\<rparr> \<and> tbl_isOpen t \<and> -1 \<le> tbl_at t \<and> tbl_at t + 1 < tbl_size t"
  by (auto simp: tbl_next_def split: if_splits)

lemma tbl_next_False:
  "tbl_next t = (False, t') \<Longrightarrow>
     t' = t \<and> \<not> (tbl_isOpen t \<and> -1 \<le> tbl_at t \<and> tbl_at t + 1 < tbl_size t)"
  by (auto simp: tbl_next_def split: if_splits)

lemma tbl_seek_True:
  "tbl_seek t i = (True, t') \<Longrightarrow>
     t' = t\<lparr>tbl_at := i\<rparr> \<and> tbl_isOpen t \<and> -1 \<le> i \<and> i < tbl_size t"
  by (auto simp: tbl_seek_def split: if_splits)

lemma tbl_seek_False:
  "tbl_seek t i = (False, t') \<Longrightarrow> t' = t \<and> \<not> (tbl_isOpen t \<and> -1 \<le> i \<and> i < tbl_size t)"
  by (auto simp: tbl_seek_def split: if_splits)

text \<open>The four ways through one round of the loop.\<close>

lemma fetchLoop_stop:
  "tbl_next (m_dbfTable m) = (False, t) \<Longrightarrow> fetchLoop m fs fc = m\<lparr>m_dbfTable := t\<rparr>"
  by (subst fetchLoop.simps) simp

lemma fetchLoop_skip:
  "tbl_next (m_dbfTable m) = (True, t) \<Longrightarrow> rec_deleted (tbl_record t) \<Longrightarrow>
   fetchLoop m fs fc =
     fetchLoop (m\<lparr>m_dbfTable := t, m_deletedRecordsCount := m_deletedRecordsCount m + 1\<rparr>) fs fc"
  by (subst fetchLoop.simps) simp

lemma fetchLoop_last:
  "tbl_next (m_dbfTable m) = (True, t) \<Longrightarrow> \<not> rec_deleted (tbl_record t) \<Longrightarrow> fs \<le> fc + 1 \<Longrightarrow>
   fetchLoop m fs fc =
     m\<lparr>m_dbfTable := t, m_records := m_records m @ [tbl_record t], m_lastRecordIndex := tbl_at t\<rparr>"
  by (subst fetchLoop.simps) (simp add: Let_def)

lemma fetchLoop_more:
  "tbl_next (m_dbfTable m) = (True, t) \<Longrightarrow> \<not> rec_deleted (tbl_record t) \<Longrightarrow> \<not> fs \<le> fc + 1 \<Longrightarrow>
   fetchLoop m fs fc =
     fetchLoop (m\<lparr>m_dbfTable := t, m_records := m_records m @ [tbl_record t],
                  m_lastRecordIndex := tbl_at t\<rparr>) fs (fc + 1)"
  by (subst fetchLoop.simps) (simp add: Let_def)

text \<open>
  An invariant rule for the loop: a relation between the arguments and the result that holds
  where the loop returns, and is carried backwards over one round, holds of every run.
\<close>

lemma fetchLoop_rule [case_names stop skip last more]:
  assumes stop: "\<And>m fs fc t. tbl_next (m_dbfTable m) = (False, t) \<Longrightarrow>
                   Q m fs fc (m\<lparr>m_dbfTable := t\<rparr>)"
    and skip: "\<And>m fs fc t res. tbl_next (m_dbfTable m) = (True, t) \<Longrightarrow>
                 rec_deleted (tbl_record t) \<Longrightarrow>
                 Q (m\<lparr>m_dbfTable := t, m_deletedRecordsCount := m_deletedRecordsCount m + 1\<rparr>)
                   fs fc res \<Longrightarrow>
                 Q m fs fc res"
    and last: "\<And>m fs fc t. tbl_next (m_dbfTable m) = (True, t) \<Longrightarrow>
                 \<not> rec_deleted (tbl_record t) \<Longrightarrow> fs \<le> fc + 1 \<Longrightarrow>
                 Q m fs fc (m\<lparr>m_dbfTable := t, m_records := m_records m @ [tbl_record t],
                              m_lastRecordIndex := tbl_at t\<rparr>)"
    and more: "\<And>m fs fc t res. tbl_next (m_dbfTable m) = (True, t) \<Longrightarrow>
                 \<not> rec_deleted (tbl_record t) \<Longrightarrow> \<not> fs \<le> fc + 1 \<Longrightarrow>
                 Q (m\<lparr>m_dbfTable := t, m_records := m_records m @ [tbl_record t],
                      m_lastRecordIndex := tbl_at t\<rparr>) fs (fc + 1) res \<Longrightarrow>
                 Q m fs fc res"
  shows "Q m fs fc (fetchLoop m fs fc)"
proof (induction m fs fc rule: fetchLoop.induct)
  case (1 m fs fc)
  obtain ok t where nx: "tbl_next (m_dbfTable m) = (ok, t)"
    by (cases "tbl_next (m_dbfTable m)")
  show ?case
  proof (cases ok)
    case False
    with nx have "tbl_next (m_dbfTable m) = (False, t)"
      by simp
    then show ?thesis
      using stop by (simp add: fetchLoop_stop)
  next
    case True
    with nx have nxT: "tbl_next (m_dbfTable m) = (True, t)"
      by simp
    show ?thesis
    proof (cases "rec_deleted (tbl_record t)")
      case True
      from "1.IH"(1) [OF nxT [symmetric] refl refl True]
      show ?thesis
        using skip [OF nxT True] by (simp add: fetchLoop_skip [OF nxT True])
    next
      case False
      note live = this
      show ?thesis
      proof (cases "fs \<le> fc + 1")
        case True
        then show ?thesis
          using last [OF nxT live] by (simp add: fetchLoop_last [OF nxT live])
      next
        case False
        from "1.IH"(2) [OF nxT [symmetric] refl refl live refl] False
        show ?thesis
          using more [OF nxT live False] by (simp add: fetchLoop_more [OF nxT live False])
      qed
    qed
  qed
qed

lemma fetchLoop_appends:
  "\<exists>new. m_records (fetchLoop m fs fc) = m_records m @ new \<and>
         int (length new) \<le> max 1 (fs - fc) \<and> (\<forall>r \<in> set new. \<not> rec_deleted r)"
proof (induction m fs fc rule: fetchLoop_rule)
  case (stop m fs fc t)
  show ?case by simp
next
  case (skip m fs fc t res)
  then show ?case by simp
next
  case (last m fs fc t)
  then show ?case by simp
next
  case (more m fs fc t res)
  then obtain new where
    "m_records res = (m_records m @ [tbl_record t]) @ new"
    "int (length new) \<le> max 1 (fs - (fc + 1))" "\<forall>r \<in> set new. \<not> rec_deleted r"
    by auto
  with more(2,3) show ?case
    by auto
qed

lemma fetchLoop_frame:
  "m_headers (fetchLoop m fs fc) = m_headers m \<and> m_record (fetchLoop m fs fc) = m_record m \<and>
   tbl_recs (m_dbfTable (fetchLoop m fs fc)) = tbl_recs (m_dbfTable m) \<and>
   tbl_size (m_dbfTable (fetchLoop m fs fc)) = tbl_size (m_dbfTable m) \<and>
   tbl_isOpen (m_dbfTable (fetchLoop m fs fc)) = tbl_isOpen (m_dbfTable m)"
proof (induction m fs fc rule: fetchLoop_rule)
  case (stop m fs fc t)
  then show ?case by (auto simp: tbl_size_def dest!: tbl_next_False)
next
  case (skip m fs fc t res)
  then show ?case by (auto simp: tbl_size_def dest!: tbl_next_True)
next
  case (last m fs fc t)
  then show ?case by (auto simp: tbl_size_def dest!: tbl_next_True)
next
  case (more m fs fc t res)
  then show ?case by (auto simp: tbl_size_def dest!: tbl_next_True)
qed

lemma fetchLoop_no_deleted:
  "list_all (\<lambda>r. \<not> rec_deleted r) (tbl_recs (m_dbfTable m)) \<longrightarrow>
   m_deletedRecordsCount (fetchLoop m fs fc) = m_deletedRecordsCount m"
proof (induction m fs fc rule: fetchLoop_rule)
  case (stop m fs fc t)
  show ?case by simp
next
  case (skip m fs fc t res)
  from skip(1) have "tbl_record t = (tbl_recs (m_dbfTable m) ! nat (tbl_at t))\<lparr>rec_index := tbl_at t\<rparr>"
    and "nat (tbl_at t) < length (tbl_recs (m_dbfTable m))"
    by (auto simp: tbl_record_def tbl_size_def dest!: tbl_next_True)
  with skip(2) show ?case
    by (auto simp: list_all_length)
next
  case (last m fs fc t)
  show ?case by simp
next
  case (more m fs fc t res)
  then show ?case
    by (auto dest!: tbl_next_True)
qed

lemma fetchMore_store:
  "tbl_size (m_dbfTable (fst (fetchMore m index))) = tbl_size (m_dbfTable m) \<and>
   tbl_isOpen (m_dbfTable (fst (fetchMore m index))) = tbl_isOpen (m_dbfTable m) \<and>
   tbl_recs (m_dbfTable (fst (fetchMore m index))) = tbl_recs (m_dbfTable m)"
proof (cases "isValid index")
  case True
  then show ?thesis
    by (simp add: fetchMore_def)
next
  case False
  obtain ok t where sk: "tbl_seek (m_dbfTable m) (m_lastRecordIndex m) = (ok, t)"
    by (cases "tbl_seek (m_dbfTable m) (m_lastRecordIndex m)")
  show ?thesis
  proof (cases ok)
    case False
    with sk \<open>\<not> isValid index\<close> show ?thesis
      by (auto simp: fetchMore_def dest!: tbl_seek_False)
  next
    case True
    with sk have t: "t = (m_dbfTable m)\<lparr>tbl_at := m_lastRecordIndex m\<rparr>"
      by (auto dest!: tbl_seek_True)
    have "tbl_size (m_dbfTable (fetchLoop (m\<lparr>m_dbfTable := t\<rparr>) fs 0)) = tbl_size t \<and>
          tbl_isOpen (m_dbfTable (fetchLoop (m\<lparr>m_dbfTable := t\<rparr>) fs 0)) = tbl_isOpen t \<and>
          tbl_recs (m_dbfTable (fetchLoop (m\<lparr>m_dbfTable := t\<rparr>) fs 0)) = tbl_recs t" for fs
      using fetchLoop_frame [of "m\<lparr>m_dbfTable := t\<rparr>" fs 0] by simp
    with sk True \<open>\<not> isValid index\<close> t show ?thesis
      by (simp add: fetchMore_def Let_def tbl_size_def)
  qed
qed

lemma fetchMore_no_deleted:
  assumes "list_all (\<lambda>r. \<not> rec_deleted r) (tbl_recs (m_dbfTable m))"
  shows "m_deletedRecordsCount (fst (fetchMore m index)) = m_deletedRecordsCount m"
proof -
  have "m_deletedRecordsCount (fetchLoop (m\<lparr>m_dbfTable := t\<rparr>) fs 0) = m_deletedRecordsCount m"
    if "tbl_seek (m_dbfTable m) (m_lastRecordIndex m) = (True, t)" for t fs
    using fetchLoop_no_deleted [of "m\<lparr>m_dbfTable := t\<rparr>" fs 0] assms that
    by (auto dest!: tbl_seek_True)
  then show ?thesis
    by (auto simp: fetchMore_def Let_def split: prod.splits bool.splits)
qed

section \<open>Whether more can be fetched\<close>


section \<open>The size of a batch\<close>

lemma fetchMore_appends:
  "\<exists>new. m_records (fst (fetchMore m index)) = m_records m @ new \<and> length new \<le> 255 \<and>
         (\<forall>r \<in> set new. \<not> rec_deleted r)"
proof (cases "isValid index")
  case True
  then show ?thesis
    by (simp add: fetchMore_def)
next
  case False
  obtain ok t where sk: "tbl_seek (m_dbfTable m) (m_lastRecordIndex m) = (ok, t)"
    by (cases "tbl_seek (m_dbfTable m) (m_lastRecordIndex m)")
  show ?thesis
  proof (cases ok)
    case False
    with sk \<open>\<not> isValid index\<close> show ?thesis
      by (simp add: fetchMore_def)
  next
    case True
    define m1 where "m1 = m\<lparr>m_dbfTable := t\<rparr>"
    define fs where "fs = min (tbl_size (m_dbfTable m1) - int (length (m_records m1))
                               - m_deletedRecordsCount m1) DBF_PREFETCH"
    from fetchLoop_appends [of m1 fs 0] obtain new where
      new: "m_records (fetchLoop m1 fs 0) = m_records m1 @ new"
        "int (length new) \<le> max 1 (fs - 0)" "\<forall>r \<in> set new. \<not> rec_deleted r"
      by blast
    have "fs \<le> 255"
      by (simp add: fs_def DBF_PREFETCH_def)
    with new(2) have "length new \<le> 255"
      by simp
    moreover note new(3)
    moreover from sk True \<open>\<not> isValid index\<close>
    have "fst (fetchMore m index) = fetchLoop m1 fs 0"
      by (simp add: fetchMore_def Let_def m1_def fs_def)
    ultimately show ?thesis
      using new(1) by (simp add: m1_def)
  qed
qed

text \<open>
  C7. One call of \<open>fetchMore\<close>, from any state and for any index, only appends to the row
  cache, appends at most 255 rows, and appends live records only, however many deleted
  records the traversal passes.
\<close>

theorem fetchMore_batch_bound:
  "\<exists>new. m_records (fst (fetchMore m index)) = m_records m @ new \<and> length new \<le> 255 \<and>
         filter rec_deleted new = []"
  using fetchMore_appends [of m index] by (auto simp: filter_empty_conv)

section \<open>Reading\<close>

text \<open>
  C10. The read-side methods are \<open>const\<close>: each of \<open>rowCount\<close>, \<open>columnCount\<close>, \<open>flags\<close>,
  \<open>data\<close>, \<open>headerData\<close> and \<open>canFetchMore\<close> hands back the state it was given (row cache,
  counters, bookmark, header overlay and table alike) and emits no signal. \<open>headerData\<close> reads
  the overlay with \<open>QVector::value\<close>, which yields a default beyond the end instead of
  growing the vector.
\<close>

theorem read_side_frame:
  "call m (OpRowCount index) = Inr (RInt (rowCount m), m, []) \<and>
   call m (OpColumnCount index) = Inr (RInt (columnCount m), m, []) \<and>
   call m (OpFlags index) = Inr (RFlags (flags m index), m, []) \<and>
   call m (OpData index role) = Inr (RVariant (data m index role), m, []) \<and>
   call m (OpHeaderData section orientation role) =
     Inr (RVariant (headerData m section orientation role), m, []) \<and>
   call m (OpCanFetchMore index) = Inr (RBool (canFetchMore m index), m, [])"
  by simp

subsection \<open>The role mask\<close>

text \<open>
  \<open>data\<close> rejects a role by \<open>role & ~(DisplayRole | EditRole)\<close>. With \<open>DisplayRole = 0\<close> and
  \<open>EditRole = 2\<close> the test passes exactly the two roles themselves.
\<close>

lemma bit_two_int: "bit (2::int) n = (n = 1)"
  by (cases n) (simp_all add: bit_Suc bit_0 bit_1_iff)

lemma and_not_single_bit:
  fixes role k :: int
  assumes k: "\<And>n. bit k n = (n = 1)"
  shows "(role AND NOT k = 0) = (role = 0 \<or> role = k)"
proof
  assume a: "role AND NOT k = 0"
  have b: "\<not> bit role n" if "n \<noteq> 1" for n
  proof
    assume "bit role n"
    with that have "bit (role AND NOT k) n"
      by (simp add: bit_and_iff bit_not_iff k)
    with a show False by simp
  qed
  show "role = 0 \<or> role = k"
  proof (cases "bit role 1")
    case True
    have "bit role n = bit k n" for n
      using True by (cases "n = 1") (simp_all add: k b)
    then have "role = k"
      by (simp add: bit_eq_iff)
    then show ?thesis ..
  next
    case False
    have "\<not> bit role n" for n
      using False by (cases "n = 1") (simp_all add: b)
    then have "role = 0"
      by (simp add: bit_eq_iff)
    then show ?thesis ..
  qed
next
  assume "role = 0 \<or> role = k"
  then show "role AND NOT k = 0"
    by auto
qed

lemma role_mask:
  "(role AND NOT (DisplayRole OR EditRole) = 0) = (role = DisplayRole \<or> role = EditRole)"
proof -
  have e: "DisplayRole OR EditRole = 2"
    unfolding DisplayRole_def EditRole_def by (rule or.left_neutral)
  have "(role AND NOT 2 = 0) = (role = 0 \<or> role = 2)"
    by (rule and_not_single_bit [OF bit_two_int])
  then show ?thesis
    unfolding e by (simp only: DisplayRole_def EditRole_def)
qed

subsection \<open>Trimming\<close>

text \<open>
  \<open>trimmed\<close> cuts a run of white space from each end, and what is left neither starts nor
  ends with white space.
\<close>

lemma trimmed_decomposition:
  "\<exists>pre suf. s = pre @ trimmed s @ suf \<and> list_all isSpace pre \<and> list_all isSpace suf"
proof -
  define pre where "pre = takeWhile isSpace s"
  define rest where "rest = dropWhile isSpace s"
  define suf where "suf = rev (takeWhile isSpace (rev rest))"
  have "s = pre @ rest"
    by (simp add: pre_def rest_def)
  moreover have "rev rest = takeWhile isSpace (rev rest) @ dropWhile isSpace (rev rest)"
    by simp
  then have "rest = rev (dropWhile isSpace (rev rest)) @ suf"
    unfolding suf_def by (metis rev_append rev_rev_ident)
  moreover have "list_all isSpace pre"
    unfolding pre_def list_all_iff by (auto dest: set_takeWhileD)
  moreover have "list_all isSpace suf"
    unfolding suf_def list_all_iff by (auto dest: set_takeWhileD)
  ultimately show ?thesis
    unfolding trimmed_def rest_def by metis
qed

lemma trimmed_ends:
  "trimmed s \<noteq> [] \<Longrightarrow> \<not> isSpace (hd (trimmed s)) \<and> \<not> isSpace (last (trimmed s))"
proof -
  assume ne: "trimmed s \<noteq> []"
  define rest where "rest = dropWhile isSpace s"
  define core where "core = dropWhile isSpace (rev rest)"
  from ne have core: "core \<noteq> []"
    by (simp add: trimmed_def core_def rest_def)
  then have "\<not> isSpace (hd core)"
    unfolding core_def by (rule hd_dropWhile)
  then have l: "\<not> isSpace (last (trimmed s))"
    using core by (simp add: trimmed_def core_def rest_def last_rev)
  from core have "rest \<noteq> []"
    by (auto simp: core_def)
  then have h: "\<not> isSpace (hd rest)"
    unfolding rest_def by (rule hd_dropWhile)
  have "\<exists>ys. rev rest = ys @ core"
    unfolding core_def by (metis takeWhile_dropWhile_id)
  then obtain ys where "rev rest = ys @ core" ..
  then have "rest = rev core @ rev ys"
    by (metis rev_append rev_rev_ident)
  with core have "hd rest = hd (rev core)"
    by simp
  with h have "\<not> isSpace (hd (trimmed s))"
    by (simp add: trimmed_def core_def rest_def)
  with l show ?thesis
    by simp
qed

subsection \<open>Cells\<close>

text \<open>
  C9. For a cell inside the row cache and the schema, the display role returns the stored
  value as it is, the edit role returns a stored string with the white space at both ends
  removed and a value of any other type as it is, and any other role yields no value. For an
  index that is invalid or outside the row cache or the schema, every role yields no value.
\<close>

theorem data_read_cell:
  "(inRange m index \<longrightarrow>
      data m index DisplayRole = stored m index \<and>
      data m index EditRole =
        (case stored m index of VString s \<Rightarrow> VString (trimmed s) | v \<Rightarrow> v) \<and>
      (role \<noteq> DisplayRole \<and> role \<noteq> EditRole \<longrightarrow> data m index role = Invalid)) \<and>
   (\<not> inRange m index \<longrightarrow> data m index role = Invalid)"
proof -
  have ne: "DisplayRole \<noteq> EditRole"
    by (simp add: DisplayRole_def EditRole_def)
  show ?thesis
    unfolding inRange_def stored_def data_def Let_def
    using role_mask [of role] role_mask [of DisplayRole] role_mask [of EditRole] ne
    by (auto split: qvariant.splits)
qed

theorem data_read_cell_witness:
  "inRange ex_model ex_cell \<and>
   data ex_model ex_cell DisplayRole = VString '' Ann '' \<and>
   data ex_model ex_cell EditRole = VString ''Ann'' \<and>
   data ex_model ex_cell 1 = Invalid \<and>
   \<not> inRange ex_model (ex_cell\<lparr>idx_row := 1\<rparr>) \<and>
   data ex_model (ex_cell\<lparr>idx_row := 1\<rparr>) EditRole = Invalid"
proof -
  have a: "inRange ex_model ex_cell"
    by (simp add: inRange_def isValid_def rowCount_def columnCount_def rec_defs ex_defs)
  have b: "\<not> inRange ex_model (ex_cell\<lparr>idx_row := 1\<rparr>)"
    by (simp add: inRange_def isValid_def rowCount_def columnCount_def rec_defs ex_defs)
  have s: "stored ex_model ex_cell = VString '' Ann ''"
    by (simp add: stored_def rec_defs ex_defs)
  have t: "trimmed '' Ann '' = ''Ann''"
    by (simp add: trimmed_def isSpace_def)
  from data_read_cell [of ex_model ex_cell 1] a s t
  have "data ex_model ex_cell DisplayRole = VString '' Ann ''"
    "data ex_model ex_cell EditRole = VString ''Ann''"
    "data ex_model ex_cell 1 = Invalid"
    by (simp_all add: DisplayRole_def EditRole_def)
  moreover from data_read_cell [of ex_model "ex_cell\<lparr>idx_row := 1\<rparr>" EditRole] b
  have "data ex_model (ex_cell\<lparr>idx_row := 1\<rparr>) EditRole = Invalid"
    by simp
  ultimately show ?thesis
    using a b by simp
qed

subsection \<open>Headers\<close>

text \<open>Inside the 32-bit range the wrapped sum is the sum.\<close>

lemma int32_in_range: "- 2147483648 \<le> x \<Longrightarrow> x \<le> 2147483647 \<Longrightarrow> int32 x = x"
  by (simp add: int32_def)

text \<open>At the largest section number the sum leaves the range and comes out negative.\<close>

lemma headerData_largest_section:
  "headerData m 2147483647 Vertical DisplayRole = VInt (- 2147483648)"
  by (simp add: headerData_def int32_def DisplayRole_def)

text \<open>
  C8. On the column axis \<open>headerData\<close> resolves in this order. An overlay value for the
  requested role is returned. Without one, the display role falls back to the overlay value
  under the edit role; without that either, to the field name of the schema when the column
  is inside the schema, and to \<open>column + 1\<close> when it is beyond (for every column below
  2147483647, the largest \<open>int\<close>, where \<open>column + 1\<close> is still an \<open>int\<close>). A role other
  than the display role without an overlay value of its own yields no value. On the row axis
  the display role yields \<open>row + 1\<close>, within the same range, and every other role no value.
  An overlay entry that holds the null variant counts as no entry, as the source's
  \<open>isValid\<close> test has it.
\<close>

theorem headerData_fallback:
  "(isValidVariant (overlayValue m section role) \<longrightarrow>
      headerData m section Horizontal role = overlayValue m section role) \<and>
   (\<not> isValidVariant (overlayValue m section DisplayRole) \<longrightarrow>
      (isValidVariant (overlayValue m section EditRole) \<longrightarrow>
         headerData m section Horizontal DisplayRole = overlayValue m section EditRole) \<and>
      (\<not> isValidVariant (overlayValue m section EditRole) \<and> 0 \<le> section \<and>
       section < columnCount m \<longrightarrow>
         headerData m section Horizontal DisplayRole =
           VString (fst (rec_fields (m_record m) ! nat section))) \<and>
      (\<not> isValidVariant (overlayValue m section EditRole) \<and> columnCount m \<le> section \<and>
       section < 2147483647 \<longrightarrow>
         headerData m section Horizontal DisplayRole = VInt (section + 1))) \<and>
   (role \<noteq> DisplayRole \<and> \<not> isValidVariant (overlayValue m section role) \<longrightarrow>
      headerData m section Horizontal role = Invalid) \<and>
   (- 2147483648 \<le> section \<and> section < 2147483647 \<longrightarrow>
      headerData m section Vertical DisplayRole = VInt (section + 1)) \<and>
   (role \<noteq> DisplayRole \<longrightarrow> headerData m section Vertical role = Invalid)"
proof -
  have "0 \<le> columnCount m"
    by (simp add: columnCount_def rec_count_def)
  then have "int32 (section + 1) = section + 1"
    if "columnCount m \<le> section \<or> - 2147483648 \<le> section" and "section < 2147483647"
    using that by (intro int32_in_range) auto
  then show ?thesis
    by (auto simp: headerData_def overlayValue_def columnCount_def Let_def rec_defs)
qed

lemma ex_titled_overlay:
  "overlayValue ex_titled 0 EditRole = VString ''Full Name''"
  "overlayValue ex_titled 0 DisplayRole = Invalid"
  by (simp_all add: overlayValue_def hash_value_def vec_value_def vec_resize_def setHeaderData_def
      columnCount_def rec_defs ex_defs Let_def DisplayRole_def EditRole_def)

lemma ex_model_overlay:
  "overlayValue ex_model section role = Invalid"
  by (auto simp: overlayValue_def hash_value_def vec_value_def ex_defs)

theorem headerData_fallback_witness:
  "headerData ex_titled 0 Horizontal EditRole = VString ''Full Name'' \<and>
   headerData ex_titled 0 Horizontal DisplayRole = VString ''Full Name'' \<and>
   headerData ex_model 0 Horizontal DisplayRole = VString ''NAME'' \<and>
   headerData ex_model 3 Horizontal DisplayRole = VInt 4 \<and>
   headerData ex_model 0 Horizontal EditRole = Invalid \<and>
   headerData ex_model 0 Vertical EditRole = Invalid \<and>
   headerData ex_model 6 Vertical DisplayRole = VInt 7"
proof -
  have cols: "columnCount ex_model = 1" "fst (rec_fields (m_record ex_model) ! nat 0) = ''NAME''"
    by (simp_all add: columnCount_def rec_defs ex_defs)
  have roles: "EditRole \<noteq> DisplayRole"
    by (simp add: DisplayRole_def EditRole_def)
  from headerData_fallback [of ex_titled 0 EditRole] ex_titled_overlay
  have "headerData ex_titled 0 Horizontal EditRole = VString ''Full Name''"
    "headerData ex_titled 0 Horizontal DisplayRole = VString ''Full Name''"
    by simp_all
  moreover from headerData_fallback [of ex_model 0 EditRole] ex_model_overlay cols roles
  have "headerData ex_model 0 Horizontal DisplayRole = VString ''NAME''"
    "headerData ex_model 0 Horizontal EditRole = Invalid"
    "headerData ex_model 0 Vertical EditRole = Invalid"
    by simp_all
  moreover from headerData_fallback [of ex_model 3 EditRole] ex_model_overlay cols
  have "headerData ex_model 3 Horizontal DisplayRole = VInt 4"
    by simp
  moreover from headerData_fallback [of ex_model 6 EditRole]
  have "headerData ex_model 6 Vertical DisplayRole = VInt 7"
    by simp
  ultimately show ?thesis
    by simp
qed

section \<open>Writing a cell\<close>

text \<open>Writing the captured value back undoes a write, inside and outside the field range.\<close>

lemma rec_setValue_restore:
  "rec_setValue (rec_setValue r i v) i (rec_value r i) = r"
proof (cases "rec_contains r i")
  case True
  then have "nat i < length (rec_fields r)"
    by (auto simp: rec_contains_def rec_count_def)
  with True show ?thesis
    by (simp add: rec_defs list_update_same_conv [THEN iffD2])
next
  case False
  then show ?thesis
    by (simp add: rec_setValue_def rec_value_def)
qed

text \<open>The two outcomes of a write that reaches the store.\<close>

lemma setData_rejected:
  assumes "isValid index" and "idx_row index < rowCount m"
    and "\<not> storeAccepts m index val"
  shows "setData m index val EditRole = Inr (False, m, [])"
proof (cases "tbl_isOpen (m_dbfTable m)")
  case False
  then show ?thesis
    by (simp add: setData_def)
next
  case True
  define r where "r = nat (idx_row index)"
  define old where "old = m_records m ! r"
  define new where "new = rec_setValue old (idx_column index) val"
  from assms(1,2) have r: "r < length (m_records m)"
    by (auto simp: r_def rowCount_def isValid_def)
  have restore: "rec_setValue new (idx_column index) (rec_value old (idx_column index)) = old"
    by (simp add: new_def rec_setValue_restore)
  have upd: "(m_records m)[r := new] ! r = new"
    using r by simp
  have "overwritten m index val = new"
    by (simp add: overwritten_def new_def old_def r_def)
  with assms(3) have "updateRecordInTable (m_dbfTable m) new = (False, m_dbfTable m)"
    by (auto simp: storeAccepts_def updateRecordInTable_def split: if_splits)
  with True assms(1,2) r restore upd show ?thesis
    by (simp add: setData_def Let_def r_def [symmetric] old_def [symmetric] new_def [symmetric]
        list_update_same_conv [THEN iffD2])
qed

lemma setData_accepted:
  assumes "isValid index" and "idx_row index < rowCount m"
    and "storeAccepts m index val"
  shows "setData m index val EditRole =
           Inr (True,
                m\<lparr>m_dbfTable := storeAfter m index val,
                  m_records := (m_records m)[nat (idx_row index) := overwritten m index val]\<rparr>,
                [DataChanged index index])"
proof -
  define r where "r = nat (idx_row index)"
  define old where "old = m_records m ! r"
  define new where "new = rec_setValue old (idx_column index) val"
  from assms(1,2) have r: "r < length (m_records m)"
    by (auto simp: r_def rowCount_def isValid_def)
  have upd: "(m_records m)[r := new] ! r = new"
    using r by simp
  have new: "overwritten m index val = new"
    by (simp add: overwritten_def new_def old_def r_def)
  with assms(3) have "updateRecordInTable (m_dbfTable m) new = (True, storeAfter m index val)"
    and "tbl_isOpen (m_dbfTable m)"
    by (auto simp: storeAccepts_def storeAfter_def updateRecordInTable_def split: if_splits)
  with assms(1,2) r upd have "setData m index val EditRole =
      Inr (True, m\<lparr>m_dbfTable := storeAfter m index val, m_records := (m_records m)[r := new]\<rparr>,
           [DataChanged index index])"
    by (simp add: setData_def Let_def r_def [symmetric] old_def [symmetric] new_def [symmetric])
  then show ?thesis
    by (simp add: new r_def)
qed

text \<open>
  C1. \<open>setData\<close> under the edit role on a valid index whose row is in the row cache. If the
  store rejects the overwritten row, the call returns false, the state is the one before the
  call (so the cell holds the value captured before the write) and no signal is emitted. If
  the store accepts, the call returns true, the row holds the overwritten record and exactly
  one signal is emitted, \<open>dataChanged\<close> for that very cell.
\<close>

theorem setData_commit_or_rollback:
  assumes "isValid index" and "idx_row index < rowCount m"
  shows "(\<not> storeAccepts m index val \<longrightarrow>
            setData m index val EditRole = Inr (False, m, [])) \<and>
         (storeAccepts m index val \<longrightarrow>
            setData m index val EditRole =
              Inr (True,
                   m\<lparr>m_dbfTable := storeAfter m index val,
                     m_records := (m_records m)[nat (idx_row index) := overwritten m index val]\<rparr>,
                   [DataChanged index index]))"
  using setData_rejected [OF assms] setData_accepted [OF assms] by blast

theorem setData_commit_or_rollback_witness:
  "isValid ex_cell \<and> idx_row ex_cell < rowCount ex_model \<and>
   \<not> storeAccepts ex_model ex_cell Invalid \<and>
   setData ex_model ex_cell Invalid EditRole = Inr (False, ex_model, []) \<and>
   storeAccepts ex_model ex_cell (VString ''Eve'') \<and>
   setData ex_model ex_cell (VString ''Eve'') EditRole =
     Inr (True,
          ex_model\<lparr>m_dbfTable := storeAfter ex_model ex_cell (VString ''Eve''),
                   m_records := [ex_live\<lparr>rec_fields := [(''NAME'', VString ''Eve'')]\<rparr>]\<rparr>,
          [DataChanged ex_cell ex_cell]) \<and>
   data (ex_model\<lparr>m_dbfTable := storeAfter ex_model ex_cell (VString ''Eve''),
                   m_records := [ex_live\<lparr>rec_fields := [(''NAME'', VString ''Eve'')]\<rparr>]\<rparr>)
        ex_cell DisplayRole = VString ''Eve''"
proof -
  have v: "isValid ex_cell" "idx_row ex_cell < rowCount ex_model"
    by (simp_all add: isValid_def rowCount_def ex_defs)
  have w: "overwritten ex_model ex_cell (VString ''Eve'') =
             ex_live\<lparr>rec_fields := [(''NAME'', VString ''Eve'')]\<rparr>"
    by (simp add: overwritten_def rec_defs ex_defs)
  have rej: "\<not> storeAccepts ex_model ex_cell Invalid"
    by (simp add: storeAccepts_def overwritten_def updateRecordInTable_def rec_defs tbl_defs ex_defs)
  have acc: "storeAccepts ex_model ex_cell (VString ''Eve'')"
    by (simp add: storeAccepts_def overwritten_def updateRecordInTable_def rec_defs tbl_defs ex_defs)
  have rd: "data (ex_model\<lparr>m_dbfTable := storeAfter ex_model ex_cell (VString ''Eve''),
                   m_records := [ex_live\<lparr>rec_fields := [(''NAME'', VString ''Eve'')]\<rparr>]\<rparr>)
        ex_cell DisplayRole = VString ''Eve''"
    by (simp add: data_def isValid_def rowCount_def columnCount_def rec_defs ex_defs
        DisplayRole_def EditRole_def)
  from setData_commit_or_rollback [OF v, of Invalid] rej
  have "setData ex_model ex_cell Invalid EditRole = Inr (False, ex_model, [])"
    by simp
  moreover from setData_commit_or_rollback [OF v, of "VString ''Eve''"] acc w
  have "setData ex_model ex_cell (VString ''Eve'') EditRole =
     Inr (True,
          ex_model\<lparr>m_dbfTable := storeAfter ex_model ex_cell (VString ''Eve''),
                   m_records := [ex_live\<lparr>rec_fields := [(''NAME'', VString ''Eve'')]\<rparr>]\<rparr>,
          [DataChanged ex_cell ex_cell])"
    by (simp add: ex_model_def ex_cell_def)
  ultimately show ?thesis
    using v rej acc rd by simp
qed

text \<open>
  What \<open>setData\<close> does check: a closed store, an invalid index and a role other than the
  edit role are refused without any change.
\<close>

lemma setData_refused:
  assumes "\<not> tbl_isOpen (m_dbfTable m) \<or> \<not> isValid index \<or> role \<noteq> EditRole"
  shows "setData m index val role = Inr (False, m, [])"
  using assms by (auto simp: setData_def)

text \<open>
  A store opened read-only is open, so the write is tried, the store rejects it and the row
  is restored.
\<close>

lemma setData_read_only:
  assumes "tbl_openMode (m_dbfTable m) = ReadOnly"
    and "isValid index" and "idx_row index < rowCount m"
  shows "setData m index val EditRole = Inr (False, m, [])"
proof -
  from assms(1) have "\<not> storeAccepts m index val"
    by (simp add: storeAccepts_def updateRecordInTable_def)
  with assms(2,3) show ?thesis
    by (rule setData_rejected)
qed

text \<open>
  C6. \<open>setData\<close> tests \<open>index.isValid()\<close> only, which says that row and column are not
  negative; unlike \<open>data\<close> it does not compare them with the row and column counts. In
  \<open>ex_model\<close> (one row, one column, store open for writing) a valid index with row 5 makes
  \<open>m_records.at(5)\<close> read beyond the row cache instead of returning false, and a valid index
  with column 7 makes the call persist the unchanged row, return true and emit
  \<open>dataChanged\<close>. \<open>data\<close> yields no value for both indexes.
\<close>

theorem setData_out_of_range:
  "isValid ex_far_row \<and> \<not> idx_row ex_far_row < rowCount ex_model \<and>
   setData ex_model ex_far_row (VString ''Eve'') EditRole = Inl IndexOutOfRange \<and>
   isValid ex_far_column \<and> \<not> idx_column ex_far_column < columnCount ex_model \<and>
   setData ex_model ex_far_column (VString ''Eve'') EditRole =
     Inr (True, ex_model, [DataChanged ex_far_column ex_far_column]) \<and>
   data ex_model ex_far_row EditRole = Invalid \<and>
   data ex_model ex_far_column EditRole = Invalid"
  by (simp add: setData_def data_def isValid_def rowCount_def columnCount_def Let_def
      updateRecordInTable_def rec_defs tbl_defs ex_defs)

section \<open>Fetching\<close>

text \<open>The state after construction over \<open>ex_file\<close>, and one more fetch from there.\<close>

lemma construct_ex_file:
  "QDbfTableModel ex_file False = (ex_model, [BeginInsertRows QModelIndex 1 2, EndInsertRows])"
  by (simp add: QDbfTableModel_def QDbfTableModelPrivate_def canFetchMore_def fetchMore_def
      isValid_def QModelIndex_def DBF_PREFETCH_def Let_def fetchLoop.simps ex_defs tbl_defs)

lemma fetchMore_ex_model:
  "fetchMore ex_model QModelIndex =
     (ex_recount, [BeginInsertRows QModelIndex 2 1, EndInsertRows])"
  by (simp add: fetchMore_def isValid_def QModelIndex_def DBF_PREFETCH_def Let_def
      fetchLoop.simps ex_defs tbl_defs)

subsection \<open>The announced range\<close>

text \<open>
  When the index is the root and the seek succeeds, \<open>fetchMore\<close> emits the two signals of
  \<open>beginInsertRows\<close> and \<open>endInsertRows\<close>; the first carries the rows
  \<open>rowCount + 1\<close> to \<open>rowCount + fetchSize\<close>, computed before the loop runs.
\<close>

lemma fetchMore_signals:
  assumes "\<not> isValid index" and "fst (tbl_seek (m_dbfTable m) (m_lastRecordIndex m))"
  shows "snd (fetchMore m index) =
           [BeginInsertRows index (rowCount m + 1)
              (rowCount m +
               min (tbl_size (m_dbfTable m) - rowCount m - m_deletedRecordsCount m) 255),
            EndInsertRows]"
  using assms
  by (auto simp: fetchMore_def Let_def rowCount_def DBF_PREFETCH_def tbl_size_def
      split: prod.splits bool.splits dest!: tbl_seek_True)

text \<open>
  C4. The first fetch over a file with one live record, from the empty row cache: the seek
  succeeds and the batch size is 1. The rows announced are first 1 to last 1, while the row
  count is 0 and the record is appended as row 0. The range has the size of the batch but
  starts one row after the current row count.
\<close>

theorem fetchMore_announced_range:
  "rowCount ex_fresh = 0 \<and>
   fst (tbl_seek (m_dbfTable ex_fresh) (m_lastRecordIndex ex_fresh)) \<and>
   snd (fetchMore ex_fresh QModelIndex) = [BeginInsertRows QModelIndex 1 1, EndInsertRows] \<and>
   m_records (fst (fetchMore ex_fresh QModelIndex)) = [ex_live]"
  by (simp add: QDbfTableModelPrivate_def fetchMore_def rowCount_def
      isValid_def QModelIndex_def DBF_PREFETCH_def Let_def fetchLoop.simps ex_defs tbl_defs)

subsection \<open>Fetching when nothing is left\<close>

text \<open>
  C5, as stated, fails. After construction over \<open>ex_file\<close> both records have been
  traversed and \<open>canFetchMore\<close> is false, yet \<open>fetchMore\<close> emits both signals and counts
  the trailing deleted record again.
\<close>

theorem fetchMore_exhausted_counterexample:
  "\<not> canFetchMore (fst (QDbfTableModel ex_file False)) QModelIndex \<and>
   fetchMore (fst (QDbfTableModel ex_file False)) QModelIndex =
     (ex_recount, [BeginInsertRows QModelIndex 2 1, EndInsertRows]) \<and>
   m_deletedRecordsCount (fst (QDbfTableModel ex_file False)) = 1 \<and>
   m_deletedRecordsCount ex_recount = 2"
  by (simp add: construct_ex_file fetchMore_ex_model)
     (simp add: canFetchMore_def isValid_def QModelIndex_def tbl_size_def ex_defs)

text \<open>Where \<open>fetchMore\<close> returns at once, nothing changes and nothing is emitted.\<close>

lemma fetchMore_returns_early:
  "(\<not> tbl_isOpen (m_dbfTable m) \<longrightarrow>
      \<not> canFetchMore m index \<and> fetchMore m index = (m, [])) \<and>
   (isValid index \<or> \<not> fst (tbl_seek (m_dbfTable m) (m_lastRecordIndex m)) \<longrightarrow>
      fetchMore m index = (m, []))"
  by (auto simp: fetchMore_def canFetchMore_def tbl_seek_def)

text \<open>
  When every record after the cursor is deleted, the loop appends nothing and leaves the
  bookmark alone; it only counts.
\<close>

lemma trailing_iff:
  "trailing t p = (\<forall>i < length (tbl_recs t). p < int i \<longrightarrow> rec_deleted (tbl_recs t ! i))"
proof -
  have "trailing t p =
          (\<forall>j < length (tbl_recs t) - nat (p + 1). rec_deleted (tbl_recs t ! (nat (p + 1) + j)))"
    by (simp add: trailing_def list_all_length)
  also have "\<dots> = (\<forall>i < length (tbl_recs t). p < int i \<longrightarrow> rec_deleted (tbl_recs t ! i))"
  proof (intro iffI allI impI)
    fix i assume a: "\<forall>j < length (tbl_recs t) - nat (p + 1). rec_deleted (tbl_recs t ! (nat (p + 1) + j))"
      and i: "i < length (tbl_recs t)" "p < int i"
    from i have "i - nat (p + 1) < length (tbl_recs t) - nat (p + 1)" "nat (p + 1) + (i - nat (p + 1)) = i"
      by auto
    with a show "rec_deleted (tbl_recs t ! i)"
      by metis
  next
    fix j assume a: "\<forall>i < length (tbl_recs t). p < int i \<longrightarrow> rec_deleted (tbl_recs t ! i)"
      and j: "j < length (tbl_recs t) - nat (p + 1)"
    from j have "nat (p + 1) + j < length (tbl_recs t)" "p < int (nat (p + 1) + j)"
      by auto
    with a show "rec_deleted (tbl_recs t ! (nat (p + 1) + j))"
      by blast
  qed
  finally show ?thesis .
qed

lemma tbl_record_next:
  assumes "tbl_next t = (True, t')"
  shows "rec_deleted (tbl_record t') = rec_deleted (tbl_recs t ! nat (tbl_at t + 1))"
    and "rec_index (tbl_record t') = tbl_at t + 1"
    and "nat (tbl_at t + 1) < length (tbl_recs t)"
    and "tbl_recs t' = tbl_recs t" and "tbl_at t' = tbl_at t + 1" and "tbl_size t' = tbl_size t"
    and "tbl_isOpen t'"
  using assms by (auto simp: tbl_record_def tbl_size_def dest!: tbl_next_True)

lemma fetchLoop_only_counts:
  "trailing (m_dbfTable m) (tbl_at (m_dbfTable m)) \<longrightarrow>
   m_records (fetchLoop m fs fc) = m_records m \<and>
   m_lastRecordIndex (fetchLoop m fs fc) = m_lastRecordIndex m \<and>
   m_deletedRecordsCount m \<le> m_deletedRecordsCount (fetchLoop m fs fc)"
proof (induction m fs fc rule: fetchLoop_rule)
  case (stop m fs fc t)
  show ?case by simp
next
  case (skip m fs fc t res)
  note n = tbl_record_next [OF skip(1)]
  have "trailing (m_dbfTable m) (tbl_at (m_dbfTable m)) \<Longrightarrow> trailing t (tbl_at t)"
    by (simp add: trailing_iff n)
  with skip(3) show ?case
    by auto
next
  case (last m fs fc t)
  note n = tbl_record_next [OF last(1)]
  from last(2) n(1,3) have "\<not> trailing (m_dbfTable m) (tbl_at (m_dbfTable m))"
    unfolding trailing_iff using tbl_next_True [OF last(1)] by (auto intro!: exI [of _ "nat (tbl_at (m_dbfTable m) + 1)"])
  then show ?case by simp
next
  case (more m fs fc t res)
  note n = tbl_record_next [OF more(1)]
  from more(2) n(1,3) have "\<not> trailing (m_dbfTable m) (tbl_at (m_dbfTable m))"
    unfolding trailing_iff using tbl_next_True [OF more(1)] by (auto intro!: exI [of _ "nat (tbl_at (m_dbfTable m) + 1)"])
  then show ?case by simp
qed

text \<open>
  The invariant \<open>fetchInv\<close> is kept by the loop started at or after the bookmark, with
  everything in between deleted and accounted for.
\<close>

lemma rows_mono:
  "list_all (\<lambda>r. \<not> rec_deleted r \<and> 0 \<le> rec_index r \<and> rec_index r \<le> p) rows \<Longrightarrow> p \<le> q \<Longrightarrow>
   list_all (\<lambda>r. \<not> rec_deleted r \<and> 0 \<le> rec_index r \<and> rec_index r \<le> (q::int)) rows"
  by (auto simp: list_all_iff)


text \<open>One round that appends: what holds of the state with the record appended.\<close>

lemma append_round:
  assumes nx: "tbl_next (m_dbfTable m) = (True, t)" and live: "\<not> rec_deleted (tbl_record t)"
    and pre: "tbl_isOpen (m_dbfTable m) \<and> - 1 \<le> m_lastRecordIndex m \<and>
      m_lastRecordIndex m \<le> tbl_at (m_dbfTable m) \<and>
      tbl_at (m_dbfTable m) < tbl_size (m_dbfTable m) \<and>
      rowCount m + m_deletedRecordsCount m = tbl_at (m_dbfTable m) + 1 \<and>
      (\<forall>i < length (tbl_recs (m_dbfTable m)).
         m_lastRecordIndex m < int i \<and> int i \<le> tbl_at (m_dbfTable m) \<longrightarrow>
         rec_deleted (tbl_recs (m_dbfTable m) ! i)) \<and>
      list_all (\<lambda>r. \<not> rec_deleted r \<and> 0 \<le> rec_index r \<and> rec_index r \<le> m_lastRecordIndex m)
        (m_records m)"
  defines "m' \<equiv> m\<lparr>m_dbfTable := t, m_records := m_records m @ [tbl_record t],
                      m_lastRecordIndex := tbl_at t\<rparr>"
  shows "tbl_isOpen (m_dbfTable m')" and "- 1 \<le> m_lastRecordIndex m'"
    and "m_lastRecordIndex m' = tbl_at (m_dbfTable m')"
    and "tbl_at (m_dbfTable m') < tbl_size (m_dbfTable m')"
    and "rowCount m' + m_deletedRecordsCount m' = tbl_at (m_dbfTable m') + 1"
    and "list_all (\<lambda>r. \<not> rec_deleted r \<and> 0 \<le> rec_index r \<and> rec_index r \<le> m_lastRecordIndex m')
           (m_records m')"
proof -
  note n = tbl_record_next [OF nx]
  have lt: "tbl_at (m_dbfTable m) + 1 < tbl_size (m_dbfTable m)"
    using tbl_next_True [OF nx] by simp
  from pre have p2: "- 1 \<le> m_lastRecordIndex m"
    and p3: "m_lastRecordIndex m \<le> tbl_at (m_dbfTable m)"
    and p5: "rowCount m + m_deletedRecordsCount m = tbl_at (m_dbfTable m) + 1"
    and p7: "list_all (\<lambda>r. \<not> rec_deleted r \<and> 0 \<le> rec_index r \<and> rec_index r \<le> m_lastRecordIndex m)
        (m_records m)"
    by blast+
  from p2 p3 have ge: "- 1 \<le> tbl_at (m_dbfTable m)"
    by linarith
  show "tbl_isOpen (m_dbfTable m')"
    by (simp add: m'_def n(7))
  show "- 1 \<le> m_lastRecordIndex m'"
    using ge by (simp add: m'_def n(5))
  show "m_lastRecordIndex m' = tbl_at (m_dbfTable m')"
    by (simp add: m'_def)
  show "tbl_at (m_dbfTable m') < tbl_size (m_dbfTable m')"
    using lt by (simp add: m'_def n(5,6))
  show "rowCount m' + m_deletedRecordsCount m' = tbl_at (m_dbfTable m') + 1"
    using p5 by (simp add: m'_def n(5) rowCount_def)
  have "m_lastRecordIndex m \<le> tbl_at t"
    using p3 by (simp add: n(5))
  with p7 have "list_all (\<lambda>r. \<not> rec_deleted r \<and> 0 \<le> rec_index r \<and> rec_index r \<le> tbl_at t)
        (m_records m)"
    by (rule rows_mono)
  moreover have "\<not> rec_deleted (tbl_record t) \<and> 0 \<le> rec_index (tbl_record t) \<and>
      rec_index (tbl_record t) \<le> tbl_at t"
    using live ge by (simp add: n(2,5))
  ultimately show "list_all (\<lambda>r. \<not> rec_deleted r \<and> 0 \<le> rec_index r \<and> rec_index r \<le> m_lastRecordIndex m')
           (m_records m')"
    by (simp add: m'_def)
qed

text \<open>The round that ends the traversal.\<close>

lemma stop_round:
  assumes stop: "tbl_next (m_dbfTable m) = (False, t)" and pre: "tbl_isOpen (m_dbfTable m) \<and> - 1 \<le> m_lastRecordIndex m \<and>
      m_lastRecordIndex m \<le> tbl_at (m_dbfTable m) \<and>
      tbl_at (m_dbfTable m) < tbl_size (m_dbfTable m) \<and>
      rowCount m + m_deletedRecordsCount m = tbl_at (m_dbfTable m) + 1 \<and>
      (\<forall>i < length (tbl_recs (m_dbfTable m)).
         m_lastRecordIndex m < int i \<and> int i \<le> tbl_at (m_dbfTable m) \<longrightarrow>
         rec_deleted (tbl_recs (m_dbfTable m) ! i)) \<and>
      list_all (\<lambda>r. \<not> rec_deleted r \<and> 0 \<le> rec_index r \<and> rec_index r \<le> m_lastRecordIndex m)
        (m_records m)"
  shows "fetchInv (m\<lparr>m_dbfTable := t\<rparr>)"
proof -
  from tbl_next_False [OF stop] pre have t: "t = m_dbfTable m"
    and e: "tbl_at (m_dbfTable m) + 1 = tbl_size (m_dbfTable m)"
    by auto
  from pre e have "trailing (m_dbfTable m) (m_lastRecordIndex m)"
    by (auto simp: trailing_iff tbl_size_def)
  with pre e t show ?thesis
    by (simp add: fetchInv_def rowCount_def)
qed

text \<open>The round that passes a deleted record.\<close>

lemma skip_round:
  assumes nx: "tbl_next (m_dbfTable m) = (True, t)" and del: "rec_deleted (tbl_record t)"
    and pre: "tbl_isOpen (m_dbfTable m) \<and> - 1 \<le> m_lastRecordIndex m \<and>
      m_lastRecordIndex m \<le> tbl_at (m_dbfTable m) \<and>
      tbl_at (m_dbfTable m) < tbl_size (m_dbfTable m) \<and>
      rowCount m + m_deletedRecordsCount m = tbl_at (m_dbfTable m) + 1 \<and>
      (\<forall>i < length (tbl_recs (m_dbfTable m)).
         m_lastRecordIndex m < int i \<and> int i \<le> tbl_at (m_dbfTable m) \<longrightarrow>
         rec_deleted (tbl_recs (m_dbfTable m) ! i)) \<and>
      list_all (\<lambda>r. \<not> rec_deleted r \<and> 0 \<le> rec_index r \<and> rec_index r \<le> m_lastRecordIndex m)
        (m_records m)"
  shows "tbl_isOpen t \<and> - 1 \<le> m_lastRecordIndex m \<and>
   m_lastRecordIndex m \<le> tbl_at t \<and>
   tbl_at t < tbl_size t \<and>
   rowCount m + (m_deletedRecordsCount m + 1) = tbl_at t + 1 \<and>
   (\<forall>i < length (tbl_recs t).
      m_lastRecordIndex m < int i \<and> int i \<le> tbl_at t \<longrightarrow>
      rec_deleted (tbl_recs t ! i)) \<and>
   list_all (\<lambda>r. \<not> rec_deleted r \<and> 0 \<le> rec_index r \<and> rec_index r \<le> m_lastRecordIndex m)
     (m_records m)"
proof -
  note n = tbl_record_next [OF nx]
  have d: "rec_deleted (tbl_recs (m_dbfTable m) ! i)"
    if "i < length (tbl_recs (m_dbfTable m))" "m_lastRecordIndex m < int i"
      "int i \<le> tbl_at (m_dbfTable m) + 1" for i
  proof (cases "int i \<le> tbl_at (m_dbfTable m)")
    case True
    with pre that show ?thesis by blast
  next
    case False
    with that have "i = nat (tbl_at (m_dbfTable m) + 1)"
      by auto
    with del n(1) show ?thesis by simp
  qed
  from pre n d show ?thesis
    by (simp add: rowCount_def tbl_size_def)
qed

lemma fetchInv_on_bookmark:
  assumes "- 1 \<le> m_lastRecordIndex m" and "m_lastRecordIndex m = tbl_at (m_dbfTable m)"
    and "tbl_at (m_dbfTable m) < tbl_size (m_dbfTable m)"
    and "rowCount m + m_deletedRecordsCount m = tbl_at (m_dbfTable m) + 1"
    and "list_all (\<lambda>r. \<not> rec_deleted r \<and> 0 \<le> rec_index r \<and> rec_index r \<le> m_lastRecordIndex m)
           (m_records m)"
  shows "fetchInv m"
  using assms by (simp add: fetchInv_def)

lemma fetchLoop_fetchInv:
  "tbl_isOpen (m_dbfTable m) \<and> - 1 \<le> m_lastRecordIndex m \<and>
   m_lastRecordIndex m \<le> tbl_at (m_dbfTable m) \<and>
   tbl_at (m_dbfTable m) < tbl_size (m_dbfTable m) \<and>
   rowCount m + m_deletedRecordsCount m = tbl_at (m_dbfTable m) + 1 \<and>
   (\<forall>i < length (tbl_recs (m_dbfTable m)).
      m_lastRecordIndex m < int i \<and> int i \<le> tbl_at (m_dbfTable m) \<longrightarrow>
      rec_deleted (tbl_recs (m_dbfTable m) ! i)) \<and>
   list_all (\<lambda>r. \<not> rec_deleted r \<and> 0 \<le> rec_index r \<and> rec_index r \<le> m_lastRecordIndex m)
     (m_records m) \<longrightarrow>
   fetchInv (fetchLoop m fs fc)"
proof (induction m fs fc rule: fetchLoop_rule)
  case (stop m fs fc t)
  then show ?case
    by (blast intro: stop_round)
next
  case (skip m fs fc t res)
  show ?case
  proof
    assume pre: "tbl_isOpen (m_dbfTable m) \<and> - 1 \<le> m_lastRecordIndex m \<and>
      m_lastRecordIndex m \<le> tbl_at (m_dbfTable m) \<and>
      tbl_at (m_dbfTable m) < tbl_size (m_dbfTable m) \<and>
      rowCount m + m_deletedRecordsCount m = tbl_at (m_dbfTable m) + 1 \<and>
      (\<forall>i < length (tbl_recs (m_dbfTable m)).
         m_lastRecordIndex m < int i \<and> int i \<le> tbl_at (m_dbfTable m) \<longrightarrow>
         rec_deleted (tbl_recs (m_dbfTable m) ! i)) \<and>
      list_all (\<lambda>r. \<not> rec_deleted r \<and> 0 \<le> rec_index r \<and> rec_index r \<le> m_lastRecordIndex m)
        (m_records m)"
    from skip(3) skip_round [OF skip(1,2) pre] show "fetchInv res"
      by (simp add: rowCount_def)
  qed
next
  case (last m fs fc t)
  show ?case
  proof
    assume pre: "tbl_isOpen (m_dbfTable m) \<and> - 1 \<le> m_lastRecordIndex m \<and>
      m_lastRecordIndex m \<le> tbl_at (m_dbfTable m) \<and>
      tbl_at (m_dbfTable m) < tbl_size (m_dbfTable m) \<and>
      rowCount m + m_deletedRecordsCount m = tbl_at (m_dbfTable m) + 1 \<and>
      (\<forall>i < length (tbl_recs (m_dbfTable m)).
         m_lastRecordIndex m < int i \<and> int i \<le> tbl_at (m_dbfTable m) \<longrightarrow>
         rec_deleted (tbl_recs (m_dbfTable m) ! i)) \<and>
      list_all (\<lambda>r. \<not> rec_deleted r \<and> 0 \<le> rec_index r \<and> rec_index r \<le> m_lastRecordIndex m)
        (m_records m)"
    note a = append_round [OF last(1,2) pre]
    show "fetchInv (m\<lparr>m_dbfTable := t,
        m_records := m_records m @ [tbl_record t], m_lastRecordIndex := tbl_at t\<rparr>)"
      by (rule fetchInv_on_bookmark [OF a(2-6)])
  qed
next
  case (more m fs fc t res)
  show ?case
  proof
    assume pre: "tbl_isOpen (m_dbfTable m) \<and> - 1 \<le> m_lastRecordIndex m \<and>
      m_lastRecordIndex m \<le> tbl_at (m_dbfTable m) \<and>
      tbl_at (m_dbfTable m) < tbl_size (m_dbfTable m) \<and>
      rowCount m + m_deletedRecordsCount m = tbl_at (m_dbfTable m) + 1 \<and>
      (\<forall>i < length (tbl_recs (m_dbfTable m)).
         m_lastRecordIndex m < int i \<and> int i \<le> tbl_at (m_dbfTable m) \<longrightarrow>
         rec_deleted (tbl_recs (m_dbfTable m) ! i)) \<and>
      list_all (\<lambda>r. \<not> rec_deleted r \<and> 0 \<le> rec_index r \<and> rec_index r \<le> m_lastRecordIndex m)
        (m_records m)"
    note a = append_round [OF more(1,2) pre]
    have "\<forall>i < length (tbl_recs t). tbl_at t < int i \<and> int i \<le> tbl_at t \<longrightarrow>
            rec_deleted (tbl_recs t ! i)"
      by auto
    with a more(4) show "fetchInv res"
      by simp
  qed
qed

text \<open>
  With the invariant and \<open>canFetchMore\<close> false, nothing but deleted records lies after the
  bookmark, so \<open>fetchMore\<close> keeps the rows, the bookmark, the overlay and the schema.
\<close>

lemma trailing_same_records:
  "tbl_recs t' = tbl_recs t \<Longrightarrow> trailing t' p = trailing t p"
  by (simp add: trailing_def)

lemma fetchInv_trailing:
  assumes "fetchInv m"
    and "tbl_size (m_dbfTable m) \<le> rowCount m + m_deletedRecordsCount m"
  shows "trailing (m_dbfTable m) (m_lastRecordIndex m)"
proof (cases "trailing (m_dbfTable m) (m_lastRecordIndex m)")
  case True
  then show ?thesis .
next
  case False
  with assms have "tbl_size (m_dbfTable m) \<le> m_lastRecordIndex m + 1"
    by (auto simp: fetchInv_def)
  then show ?thesis
    by (auto simp: trailing_iff tbl_size_def)
qed

lemma fetchMore_nothing_left:
  assumes inv: "fetchInv m" and no: "\<not> canFetchMore m index"
  shows "m_records (fst (fetchMore m index)) = m_records m \<and>
         m_lastRecordIndex (fst (fetchMore m index)) = m_lastRecordIndex m \<and>
         m_headers (fst (fetchMore m index)) = m_headers m \<and>
         m_record (fst (fetchMore m index)) = m_record m \<and>
         tbl_recs (m_dbfTable (fst (fetchMore m index))) = tbl_recs (m_dbfTable m) \<and>
         m_deletedRecordsCount m \<le> m_deletedRecordsCount (fst (fetchMore m index))"
proof (cases "isValid index")
  case True
  then show ?thesis
    by (simp add: fetchMore_def)
next
  case False
  obtain ok t where sk: "tbl_seek (m_dbfTable m) (m_lastRecordIndex m) = (ok, t)"
    by (cases "tbl_seek (m_dbfTable m) (m_lastRecordIndex m)")
  show ?thesis
  proof (cases ok)
    case False
    with sk \<open>\<not> isValid index\<close> show ?thesis
      by (auto simp: fetchMore_def dest!: tbl_seek_False)
  next
    case True
    with sk have t: "t = (m_dbfTable m)\<lparr>tbl_at := m_lastRecordIndex m\<rparr>"
      and "tbl_isOpen (m_dbfTable m)"
      by (auto dest!: tbl_seek_True)
    with no \<open>\<not> isValid index\<close>
    have "tbl_size (m_dbfTable m) \<le> rowCount m + m_deletedRecordsCount m"
      by (simp add: canFetchMore_def rowCount_def split: if_splits)
    with inv have "trailing (m_dbfTable m) (m_lastRecordIndex m)"
      by (rule fetchInv_trailing)
    then have tr: "trailing (m_dbfTable (m\<lparr>m_dbfTable := t\<rparr>)) (tbl_at (m_dbfTable (m\<lparr>m_dbfTable := t\<rparr>)))"
      by (simp add: t trailing_def)
    have "m_records (fetchLoop (m\<lparr>m_dbfTable := t\<rparr>) fs 0) = m_records m \<and>
          m_lastRecordIndex (fetchLoop (m\<lparr>m_dbfTable := t\<rparr>) fs 0) = m_lastRecordIndex m \<and>
          m_headers (fetchLoop (m\<lparr>m_dbfTable := t\<rparr>) fs 0) = m_headers m \<and>
          m_record (fetchLoop (m\<lparr>m_dbfTable := t\<rparr>) fs 0) = m_record m \<and>
          tbl_recs (m_dbfTable (fetchLoop (m\<lparr>m_dbfTable := t\<rparr>) fs 0)) = tbl_recs (m_dbfTable m) \<and>
          m_deletedRecordsCount m \<le> m_deletedRecordsCount (fetchLoop (m\<lparr>m_dbfTable := t\<rparr>) fs 0)" for fs
      using fetchLoop_only_counts [of "m\<lparr>m_dbfTable := t\<rparr>" fs 0] tr
        fetchLoop_frame [of "m\<lparr>m_dbfTable := t\<rparr>" fs 0]
      by (simp add: t)
    with sk True \<open>\<not> isValid index\<close> show ?thesis
      by (simp add: fetchMore_def Let_def)
  qed
qed

text \<open>Every call keeps the invariant, whether \<open>canFetchMore\<close> was asked or not.\<close>

lemma fetchMore_fetchInv:
  assumes inv: "fetchInv m"
  shows "fetchInv (fst (fetchMore m index))"
proof (cases "isValid index")
  case True
  with inv show ?thesis
    by (simp add: fetchMore_def)
next
  case False
  note root = this
  obtain ok t where sk: "tbl_seek (m_dbfTable m) (m_lastRecordIndex m) = (ok, t)"
    by (cases "tbl_seek (m_dbfTable m) (m_lastRecordIndex m)")
  show ?thesis
  proof (cases ok)
    case False
    with sk root inv show ?thesis
      by (auto simp: fetchMore_def dest!: tbl_seek_False)
  next
    case True
    with sk have t: "t = (m_dbfTable m)\<lparr>tbl_at := m_lastRecordIndex m\<rparr>"
      and op: "tbl_isOpen (m_dbfTable m)"
      by (auto dest!: tbl_seek_True)
    define m1 where "m1 = m\<lparr>m_dbfTable := t\<rparr>"
    have res: "fst (fetchMore m index) =
                fetchLoop m1 (min (tbl_size (m_dbfTable m1) - int (length (m_records m1))
                               - m_deletedRecordsCount m1) DBF_PREFETCH) 0"
      using sk True root by (simp add: fetchMore_def Let_def m1_def)
    from inv have b: "- 1 \<le> m_lastRecordIndex m" "m_lastRecordIndex m < tbl_size (m_dbfTable m)"
      and rows: "list_all (\<lambda>r. \<not> rec_deleted r \<and> 0 \<le> rec_index r \<and> rec_index r \<le> m_lastRecordIndex m)
                   (m_records m)"
      by (simp_all add: fetchInv_def)
    show ?thesis
    proof (cases "tbl_size (m_dbfTable m) \<le> rowCount m + m_deletedRecordsCount m")
      case True
      then have "\<not> canFetchMore m index"
        by (simp add: canFetchMore_def rowCount_def)
      note same = fetchMore_nothing_left [OF inv this]
      from inv True have "trailing (m_dbfTable m) (m_lastRecordIndex m)"
        by (rule fetchInv_trailing)
      with same have "trailing (m_dbfTable (fst (fetchMore m index))) (m_lastRecordIndex m)"
        by (simp add: trailing_def)
      moreover from same have "tbl_size (m_dbfTable (fst (fetchMore m index))) = tbl_size (m_dbfTable m)"
        by (simp add: tbl_size_def)
      ultimately show ?thesis
        using same b rows True by (simp add: fetchInv_def rowCount_def)
    next
      case False
      with inv have a: "tbl_at (m_dbfTable m) = m_lastRecordIndex m"
        "rowCount m + m_deletedRecordsCount m = m_lastRecordIndex m + 1"
        by (auto simp: fetchInv_def)
      have vac: "\<forall>i < length (tbl_recs (m_dbfTable m)).
          m_lastRecordIndex m < int i \<and> int i \<le> m_lastRecordIndex m \<longrightarrow>
          rec_deleted (tbl_recs (m_dbfTable m) ! i)"
        by auto
      have "fetchInv (fetchLoop m1 fs 0)" for fs
        using fetchLoop_fetchInv [of m1 fs 0] op b rows a vac
        by (simp add: m1_def t rowCount_def tbl_size_def)
      with res show ?thesis
        by simp
    qed
  qed
qed

lemma rec_setValue_keeps:
  "rec_deleted (rec_setValue r i v) = rec_deleted r" "rec_index (rec_setValue r i v) = rec_index r"
  by (simp_all add: rec_setValue_def)

lemma setData_cases:
  assumes "setData m index val role = Inr (ok, m', evs)"
  shows "m' = m \<or>
         0 \<le> idx_row index \<and> idx_row index < rowCount m \<and> storeAccepts m index val \<and>
         m' = m\<lparr>m_dbfTable := storeAfter m index val,
                m_records := (m_records m)[nat (idx_row index) := overwritten m index val]\<rparr>"
proof (cases "\<not> tbl_isOpen (m_dbfTable m) \<or> \<not> isValid index \<or> role \<noteq> EditRole")
  case True
  from setData_refused [OF this, of val] assms show ?thesis
    by simp
next
  case False
  then have v: "isValid index" and e: "role = EditRole" and o: "tbl_isOpen (m_dbfTable m)"
    by auto
  with assms have r: "idx_row index < rowCount m"
    by (auto simp: setData_def split: if_splits)
  show ?thesis
  proof (cases "storeAccepts m index val")
    case True
    from setData_accepted [OF v r True] assms e v r True show ?thesis
      by (simp add: isValid_def)
  next
    case False
    from setData_rejected [OF v r False] assms e show ?thesis
      by simp
  qed
qed

lemma storeAfter_accepted:
  assumes "storeAccepts m index val"
  shows "storeAfter m index val =
           (m_dbfTable m)\<lparr>tbl_recs := (tbl_recs (m_dbfTable m))
              [nat (rec_index (overwritten m index val)) := overwritten m index val]\<rparr>"
  using assms by (auto simp: storeAccepts_def storeAfter_def updateRecordInTable_def split: if_splits)

lemma setData_fetchInv:
  assumes inv: "fetchInv m" and "setData m index val role = Inr (ok, m', evs)"
  shows "fetchInv m'"
proof -
  from setData_cases [OF assms(2)] show ?thesis
  proof
    assume "m' = m"
    with inv show ?thesis by simp
  next
    assume a: "0 \<le> idx_row index \<and> idx_row index < rowCount m \<and> storeAccepts m index val \<and>
         m' = m\<lparr>m_dbfTable := storeAfter m index val,
                m_records := (m_records m)[nat (idx_row index) := overwritten m index val]\<rparr>"
    define r where "r = nat (idx_row index)"
    define new where "new = overwritten m index val"
    define L where "L = m_lastRecordIndex m"
    from a have r: "r < length (m_records m)"
      by (auto simp: r_def rowCount_def)
    from inv have rows: "list_all (\<lambda>r. \<not> rec_deleted r \<and> 0 \<le> rec_index r \<and> rec_index r \<le> L)
                   (m_records m)"
      by (simp add: fetchInv_def L_def)
    with r have old: "\<not> rec_deleted (m_records m ! r) \<and> 0 \<le> rec_index (m_records m ! r) \<and>
        rec_index (m_records m ! r) \<le> L"
      by (simp add: list_all_length)
    have new: "\<not> rec_deleted new \<and> 0 \<le> rec_index new \<and> rec_index new \<le> L"
      using old by (simp add: new_def overwritten_def r_def rec_setValue_keeps)
    from rows new have rows': "list_all (\<lambda>r. \<not> rec_deleted r \<and> 0 \<le> rec_index r \<and> rec_index r \<le> L)
                   ((m_records m)[r := new])"
      using set_update_subset_insert [of "m_records m" r new] by (auto simp: list_all_iff)
    from a have st: "storeAfter m index val =
        (m_dbfTable m)\<lparr>tbl_recs := (tbl_recs (m_dbfTable m))[nat (rec_index new) := new]\<rparr>"
      by (simp add: storeAfter_accepted new_def)
    have tr: "trailing (storeAfter m index val) L" if "trailing (m_dbfTable m) L"
      using that new by (auto simp: st trailing_iff nth_list_update)
    from a have m': "m' = m\<lparr>m_dbfTable := storeAfter m index val, m_records := (m_records m)[r := new]\<rparr>"
      by (simp add: r_def new_def)
    from inv rows' tr show ?thesis
      by (auto simp: m' fetchInv_def L_def rowCount_def st tbl_size_def)
  qed
qed

lemma setHeaderData_fetchInv:
  assumes "fetchInv m" and "setHeaderData m sec orientation val role = (ok, m', evs)"
  shows "fetchInv m'"
  using assms
  by (auto simp: setHeaderData_def Let_def fetchInv_def rowCount_def split: if_splits)

lemma call_fetchInv:
  assumes "fetchInv m" and "call m op = Inr (r, m', evs)"
  shows "fetchInv m'"
proof (cases op)
  case (OpSetData index val role)
  with assms show ?thesis
    by (auto split: sum.splits dest: setData_fetchInv)
next
  case (OpSetHeaderData sec orientation val role)
  with assms show ?thesis
    by (auto split: prod.splits dest: setHeaderData_fetchInv)
next
  case (OpFetchMore index)
  with assms fetchMore_fetchInv [of m index] show ?thesis
    by (auto split: prod.splits)
qed (insert assms, auto)

lemma run_fetchInv:
  "fetchInv m \<Longrightarrow> run m ops = Inr m' \<Longrightarrow> fetchInv m'"
proof (induction ops arbitrary: m)
  case Nil
  then show ?case by simp
next
  case (Cons op ops)
  show ?case
  proof (cases "call m op")
    case (Inl e)
    with Cons.prems show ?thesis by simp
  next
    case (Inr x)
    obtain r m1 evs where x: "x = (r, m1, evs)"
      by (cases x)
    from Cons.prems(1) Inr x have "fetchInv m1"
      by (auto dest: call_fetchInv)
    moreover from Cons.prems(2) Inr x have "run m1 ops = Inr m'"
      by simp
    ultimately show ?thesis
      by (rule Cons.IH)
  qed
qed

lemma fetchInv_private: "fetchInv (QDbfTableModelPrivate f readOnly)"
  by (simp add: fetchInv_def QDbfTableModelPrivate_def Let_def tbl_open_def tbl_size_def
      rowCount_def)

lemma fetchInv_constructed: "fetchInv (fst (QDbfTableModel f readOnly))"
  using fetchMore_fetchInv [OF fetchInv_private, of _ _ QModelIndex]
  by (simp add: QDbfTableModel_def Let_def fetchInv_private)

text \<open>With the bookmark on the last record of the store the loop ends at once.\<close>

lemma fetchMore_on_last_record:
  assumes "m_lastRecordIndex m + 1 = tbl_size (m_dbfTable m)"
  shows "m_deletedRecordsCount (fst (fetchMore m index)) = m_deletedRecordsCount m"
proof (cases "isValid index")
  case True
  then show ?thesis
    by (simp add: fetchMore_def)
next
  case False
  obtain ok t where sk: "tbl_seek (m_dbfTable m) (m_lastRecordIndex m) = (ok, t)"
    by (cases "tbl_seek (m_dbfTable m) (m_lastRecordIndex m)")
  show ?thesis
  proof (cases ok)
    case False
    with sk \<open>\<not> isValid index\<close> show ?thesis
      by (simp add: fetchMore_def)
  next
    case True
    with sk have t: "t = (m_dbfTable m)\<lparr>tbl_at := m_lastRecordIndex m\<rparr>"
      by (auto dest!: tbl_seek_True)
    with assms have "tbl_next (m_dbfTable (m\<lparr>m_dbfTable := t\<rparr>)) = (False, t)"
      by (simp add: tbl_next_def tbl_size_def)
    then have "fetchLoop (m\<lparr>m_dbfTable := t\<rparr>) fs 0 = m\<lparr>m_dbfTable := t\<rparr>" for fs
      by (simp add: fetchLoop_stop)
    with sk True \<open>\<not> isValid index\<close> show ?thesis
      by (simp add: fetchMore_def Let_def)
  qed
qed

text \<open>
  C5, amended. In every state reached from the construction by any sequence of calls, if
  \<open>canFetchMore\<close> is false then \<open>fetchMore\<close> leaves the row cache, the bookmark
  \<open>m_lastRecordIndex\<close> and the header overlay as they were; it leaves the count of deleted
  records as it was when no record of the store lies after the bookmark; and if the store is
  not open or the index is valid, it changes nothing at all and emits nothing.
\<close>

theorem fetchMore_nothing_to_fetch:
  assumes "run (fst (QDbfTableModel f readOnly)) ops = Inr m"
    and "\<not> canFetchMore m index"
  shows "m_records (fst (fetchMore m index)) = m_records m \<and>
         m_lastRecordIndex (fst (fetchMore m index)) = m_lastRecordIndex m \<and>
         m_headers (fst (fetchMore m index)) = m_headers m \<and>
         (m_lastRecordIndex m + 1 = tbl_size (m_dbfTable m) \<longrightarrow>
            m_deletedRecordsCount (fst (fetchMore m index)) = m_deletedRecordsCount m) \<and>
         (\<not> tbl_isOpen (m_dbfTable m) \<or> isValid index \<longrightarrow> fetchMore m index = (m, []))"
proof -
  from fetchInv_constructed assms(1) have "fetchInv m"
    by (rule run_fetchInv)
  from fetchMore_nothing_left [OF this assms(2)] fetchMore_on_last_record [of m index]
  show ?thesis
    by (auto simp: fetchMore_def tbl_seek_def)
qed

theorem fetchMore_nothing_to_fetch_witness:
  "run (fst (QDbfTableModel ex_file False)) [OpFetchMore QModelIndex] = Inr ex_recount \<and>
   \<not> canFetchMore ex_recount QModelIndex \<and>
   m_records (fst (fetchMore ex_recount QModelIndex)) = m_records ex_recount \<and>
   m_lastRecordIndex (fst (fetchMore ex_recount QModelIndex)) = m_lastRecordIndex ex_recount \<and>
   m_headers (fst (fetchMore ex_recount QModelIndex)) = m_headers ex_recount \<and>
   run (fst (QDbfTableModel (ex_file\<lparr>tbl_openable := False\<rparr>) False)) [] = Inr ex_closed \<and>
   \<not> canFetchMore ex_closed QModelIndex \<and> \<not> tbl_isOpen (m_dbfTable ex_closed) \<and>
   fetchMore ex_closed QModelIndex = (ex_closed, []) \<and>
   \<not> canFetchMore (fst (QDbfTableModel ex_file1 False)) QModelIndex \<and>
   m_lastRecordIndex (fst (QDbfTableModel ex_file1 False)) + 1 =
     tbl_size (m_dbfTable (fst (QDbfTableModel ex_file1 False))) \<and>
   m_deletedRecordsCount (fst (fetchMore (fst (QDbfTableModel ex_file1 False)) QModelIndex)) =
     m_deletedRecordsCount (fst (QDbfTableModel ex_file1 False))"
proof -
  have one: "fst (QDbfTableModel ex_file1 False) =
      ex_model\<lparr>m_dbfTable := (m_dbfTable ex_model)\<lparr>tbl_recs := [ex_live], tbl_at := 0\<rparr>,
               m_deletedRecordsCount := 0\<rparr>"
    by (simp add: QDbfTableModel_def QDbfTableModelPrivate_def canFetchMore_def fetchMore_def
        isValid_def QModelIndex_def DBF_PREFETCH_def Let_def fetchLoop.simps ex_defs tbl_defs)
  have r3: "run (fst (QDbfTableModel ex_file1 False)) [] = Inr (fst (QDbfTableModel ex_file1 False))"
    by simp
  have n3: "\<not> canFetchMore (fst (QDbfTableModel ex_file1 False)) QModelIndex"
    unfolding one by (simp add: canFetchMore_def tbl_size_def ex_defs)
  have l3: "m_lastRecordIndex (fst (QDbfTableModel ex_file1 False)) + 1 =
     tbl_size (m_dbfTable (fst (QDbfTableModel ex_file1 False)))"
    unfolding one by (simp add: tbl_size_def ex_defs)
  have r1: "run (fst (QDbfTableModel ex_file False)) [OpFetchMore QModelIndex] = Inr ex_recount"
    by (simp add: construct_ex_file fetchMore_ex_model)
  have n1: "\<not> canFetchMore ex_recount QModelIndex"
    by (simp add: canFetchMore_def isValid_def QModelIndex_def tbl_size_def ex_defs)
  have c: "\<not> tbl_isOpen (m_dbfTable ex_closed)"
    by (simp add: QDbfTableModelPrivate_def Let_def ex_defs tbl_defs)
  then have n2: "\<not> canFetchMore ex_closed QModelIndex"
    by (simp add: canFetchMore_def)
  then have r2: "run (fst (QDbfTableModel (ex_file\<lparr>tbl_openable := False\<rparr>) False)) [] = Inr ex_closed"
    by (simp add: QDbfTableModel_def Let_def ex_closed_def)
  from fetchMore_nothing_to_fetch [OF r3 n3] l3
  have "m_deletedRecordsCount (fst (fetchMore (fst (QDbfTableModel ex_file1 False)) QModelIndex)) =
     m_deletedRecordsCount (fst (QDbfTableModel ex_file1 False))"
    by blast
  with fetchMore_nothing_to_fetch [OF r1 n1] fetchMore_nothing_to_fetch [OF r2 n2] c r1 n1 r2 n2
    n3 l3
  show ?thesis
    by simp
qed

subsection \<open>The count invariant\<close>

text \<open>
  C2, as stated, fails. \<open>fetchMore\<close> called once more after the construction over
  \<open>ex_file\<close> leaves one live row and a deleted count of 2 over a store of 2 records.
\<close>

theorem count_invariant_unguarded_counterexample:
  "run (fst (QDbfTableModel ex_file False)) [OpFetchMore QModelIndex] = Inr ex_recount \<and>
   \<not> rowCount ex_recount + m_deletedRecordsCount ex_recount
       \<le> tbl_size (m_dbfTable ex_recount)"
  by (simp add: construct_ex_file fetchMore_ex_model)
     (simp add: rowCount_def tbl_size_def ex_defs)

text \<open>
  The cursor invariant holds after the private constructor, is kept by the loop when it
  starts on an open store, by \<open>fetchMore\<close> when \<open>canFetchMore\<close> holds, and by both writes.
\<close>

lemma cursorInv_private: "cursorInv (QDbfTableModelPrivate file readOnly)"
  by (simp add: cursorInv_def QDbfTableModelPrivate_def Let_def tbl_open_def tbl_size_def
      rowCount_def)

lemma fetchLoop_cursorInv:
  "tbl_isOpen (m_dbfTable m) \<and> - 1 \<le> tbl_at (m_dbfTable m) \<and>
   tbl_at (m_dbfTable m) < tbl_size (m_dbfTable m) \<and>
   rowCount m + m_deletedRecordsCount m = tbl_at (m_dbfTable m) + 1 \<longrightarrow>
   cursorInv (fetchLoop m fs fc)"
proof (induction m fs fc rule: fetchLoop_rule)
  case (stop m fs fc t)
  then show ?case
    by (auto simp: cursorInv_def rowCount_def dest!: tbl_next_False)
next
  case (skip m fs fc t res)
  then show ?case
    by (auto simp: rowCount_def tbl_size_def dest!: tbl_next_True)
next
  case (last m fs fc t)
  then show ?case
    by (auto simp: cursorInv_def rowCount_def tbl_size_def dest!: tbl_next_True)
next
  case (more m fs fc t res)
  then show ?case
    by (auto simp: rowCount_def tbl_size_def dest!: tbl_next_True)
qed

lemma fetchMore_cursorInv:
  assumes "cursorInv m" and "canFetchMore m index"
  shows "cursorInv (fst (fetchMore m index))"
proof -
  from assms(2) have c: "\<not> isValid index" "tbl_isOpen (m_dbfTable m)"
    "rowCount m + m_deletedRecordsCount m < tbl_size (m_dbfTable m)"
    by (auto simp: canFetchMore_def rowCount_def split: if_splits)
  with assms(1) have l: "m_lastRecordIndex m = tbl_at (m_dbfTable m)"
    and b: "- 1 \<le> tbl_at (m_dbfTable m)" "tbl_at (m_dbfTable m) < tbl_size (m_dbfTable m)"
    and e: "rowCount m + m_deletedRecordsCount m = tbl_at (m_dbfTable m) + 1"
    by (auto simp: cursorInv_def split: if_splits)
  have sk: "tbl_seek (m_dbfTable m) (m_lastRecordIndex m) = (True, m_dbfTable m)"
    using c b l by (simp add: tbl_seek_def)
  have "cursorInv (fetchLoop m fs 0)" for fs
    using fetchLoop_cursorInv [of m fs 0] c b e by simp
  with sk c(1) show ?thesis
    by (simp add: fetchMore_def Let_def)
qed

lemma updateRecordInTable_frame:
  "updateRecordInTable t r = (ok, t') \<Longrightarrow>
     tbl_at t' = tbl_at t \<and> tbl_size t' = tbl_size t \<and> tbl_isOpen t' = tbl_isOpen t"
  by (auto simp: updateRecordInTable_def tbl_size_def split: if_splits)

lemma setData_frame:
  assumes "setData m index val role = Inr (ok, m', evs)"
  shows "length (m_records m') = length (m_records m) \<and>
         m_deletedRecordsCount m' = m_deletedRecordsCount m \<and>
         m_lastRecordIndex m' = m_lastRecordIndex m \<and>
         m_headers m' = m_headers m \<and> m_record m' = m_record m \<and>
         tbl_at (m_dbfTable m') = tbl_at (m_dbfTable m) \<and>
         tbl_size (m_dbfTable m') = tbl_size (m_dbfTable m) \<and>
         tbl_isOpen (m_dbfTable m') = tbl_isOpen (m_dbfTable m)"
proof (cases "tbl_isOpen (m_dbfTable m) \<and> isValid index \<and> role = EditRole")
  case False
  with assms show ?thesis
    by (auto simp: setData_def split: if_splits)
next
  case True
  define r where "r = nat (idx_row index)"
  define new where "new = (m_records m)[r := rec_setValue (m_records m ! r) (idx_column index) val]"
  obtain ok1 t where u: "updateRecordInTable (m_dbfTable m) (new ! r) = (ok1, t)"
    by (cases "updateRecordInTable (m_dbfTable m) (new ! r)")
  from assms True have "idx_row index < rowCount m"
    by (auto simp: setData_def split: if_splits)
  with assms True u have
    "m' = (if ok1 then m\<lparr>m_records := new, m_dbfTable := t\<rparr>
           else m\<lparr>m_records := new, m_dbfTable := t,
                  m_records := new[r := rec_setValue (new ! r) (idx_column index)
                     (rec_value (m_records m ! r) (idx_column index))]\<rparr>)"
    by (simp add: setData_def Let_def r_def [symmetric] new_def [symmetric] split: if_splits)
  with updateRecordInTable_frame [OF u] show ?thesis
    by (simp add: new_def)
qed

lemma setData_cursorInv:
  assumes "cursorInv m" and "setData m index val role = Inr (ok, m', evs)"
  shows "cursorInv m'"
  using assms(1) setData_frame [OF assms(2)]
  by (simp add: cursorInv_def rowCount_def)

lemma setHeaderData_cursorInv:
  assumes "cursorInv m" and "setHeaderData m section orientation val role = (ok, m', evs)"
  shows "cursorInv m'"
  using assms
  by (auto simp: setHeaderData_def Let_def cursorInv_def rowCount_def split: if_splits)

lemma call_cursorInv:
  assumes "cursorInv m" and "fetchAllowed m op" and "call m op = Inr (r, m', evs)"
  shows "cursorInv m'"
proof (cases op)
  case (OpSetData index val role)
  with assms show ?thesis
    by (auto split: sum.splits dest: setData_cursorInv)
next
  case (OpSetHeaderData sec orientation val role)
  with assms show ?thesis
    by (auto split: prod.splits dest: setHeaderData_cursorInv)
next
  case (OpFetchMore index)
  with assms fetchMore_cursorInv [of m index] show ?thesis
    by (auto split: prod.splits)
qed (insert assms, auto)

lemma run_cursorInv:
  "cursorInv m \<Longrightarrow> guarded m ops \<Longrightarrow> run m ops = Inr m' \<Longrightarrow> cursorInv m'"
proof (induction ops arbitrary: m)
  case Nil
  then show ?case by simp
next
  case (Cons op ops)
  show ?case
  proof (cases "call m op")
    case (Inl e)
    with Cons.prems show ?thesis by simp
  next
    case (Inr x)
    obtain r m1 evs where x: "x = (r, m1, evs)"
      by (cases x)
    from Cons.prems(1,2) Inr x have "cursorInv m1"
      by (auto dest: call_cursorInv)
    moreover from Cons.prems(2) Inr x have "guarded m1 ops"
      by simp
    moreover from Cons.prems(3) Inr x have "run m1 ops = Inr m'"
      by simp
    ultimately show ?thesis
      by (rule Cons.IH)
  qed
qed

lemma cursorInv_constructed: "cursorInv (fst (QDbfTableModel file readOnly))"
  using fetchMore_cursorInv [OF cursorInv_private, of _ _ QModelIndex]
  by (simp add: QDbfTableModel_def Let_def cursorInv_private)

text \<open>
  C2, amended. After the construction and any sequence of calls in which \<open>fetchMore\<close> is
  called only when \<open>canFetchMore\<close> holds, the live rows and the deleted records counted are
  together at most the records of the store; they are exactly as many once the cursor has
  passed every record, and whenever the store is open and \<open>canFetchMore\<close> is false.
\<close>

theorem count_invariant_guarded:
  assumes "guarded (fst (QDbfTableModel file readOnly)) ops"
    and "run (fst (QDbfTableModel file readOnly)) ops = Inr m"
  shows "rowCount m + m_deletedRecordsCount m \<le> tbl_size (m_dbfTable m) \<and>
         (fullyFetched m \<longrightarrow>
            rowCount m + m_deletedRecordsCount m = tbl_size (m_dbfTable m)) \<and>
         (tbl_isOpen (m_dbfTable m) \<and> \<not> canFetchMore m QModelIndex \<longrightarrow>
            rowCount m + m_deletedRecordsCount m = tbl_size (m_dbfTable m))"
proof -
  from cursorInv_constructed assms have "cursorInv m"
    by (rule run_cursorInv)
  then show ?thesis
    by (auto simp: cursorInv_def fullyFetched_def canFetchMore_def rowCount_def isValid_def
        QModelIndex_def)
qed



lemma ex_big_constructed:
  "tbl_isOpen (m_dbfTable (fst (QDbfTableModel ex_big False)))"
  "tbl_size (m_dbfTable (fst (QDbfTableModel ex_big False))) = 256"
  "rowCount (fst (QDbfTableModel ex_big False)) \<le> 255"
  "m_deletedRecordsCount (fst (QDbfTableModel ex_big False)) = 0"
proof -
  define d where "d = QDbfTableModelPrivate ex_big False"
  have d: "tbl_isOpen (m_dbfTable d)" "tbl_size (m_dbfTable d) = 256" "m_records d = []"
    "m_deletedRecordsCount d = 0" "tbl_recs (m_dbfTable d) = replicate 256 ex_live"
    by (simp_all add: d_def QDbfTableModelPrivate_def Let_def ex_big_def ex_defs tbl_defs)
  then have "canFetchMore d QModelIndex"
    by (simp add: canFetchMore_def isValid_def QModelIndex_def)
  then have m0: "fst (QDbfTableModel ex_big False) = fst (fetchMore d QModelIndex)"
    by (simp add: QDbfTableModel_def Let_def d_def)
  from fetchMore_store [of d QModelIndex] d m0
  show "tbl_isOpen (m_dbfTable (fst (QDbfTableModel ex_big False)))"
    "tbl_size (m_dbfTable (fst (QDbfTableModel ex_big False))) = 256"
    by simp_all
  from fetchMore_appends [of d QModelIndex] d m0
  show "rowCount (fst (QDbfTableModel ex_big False)) \<le> 255"
    by (auto simp: rowCount_def)
  have "list_all (\<lambda>r. \<not> rec_deleted r) (tbl_recs (m_dbfTable d))"
    by (simp add: d list_all_iff ex_live_def)
  from fetchMore_no_deleted [OF this, of QModelIndex] d m0
  show "m_deletedRecordsCount (fst (QDbfTableModel ex_big False)) = 0"
    by simp
qed

theorem count_invariant_guarded_witness:
  "guarded (fst (QDbfTableModel ex_big False)) [OpFetchMore QModelIndex] \<and>
   run (fst (QDbfTableModel ex_big False)) [OpFetchMore QModelIndex] =
     Inr (fst (fetchMore (fst (QDbfTableModel ex_big False)) QModelIndex)) \<and>
   rowCount (fst (fetchMore (fst (QDbfTableModel ex_big False)) QModelIndex)) +
     m_deletedRecordsCount (fst (fetchMore (fst (QDbfTableModel ex_big False)) QModelIndex))
   \<le> tbl_size (m_dbfTable (fst (fetchMore (fst (QDbfTableModel ex_big False)) QModelIndex)))"
proof -
  have g: "guarded (fst (QDbfTableModel ex_big False)) [OpFetchMore QModelIndex]"
    using ex_big_constructed
    by (simp add: canFetchMore_def isValid_def QModelIndex_def rowCount_def split: prod.splits)
  have r: "run (fst (QDbfTableModel ex_big False)) [OpFetchMore QModelIndex] =
     Inr (fst (fetchMore (fst (QDbfTableModel ex_big False)) QModelIndex))"
    by (simp split: prod.splits)
  from count_invariant_guarded [OF g r] g r show ?thesis
    by simp
qed

end
